theory Spec2Isabelle
  imports Main
begin

section \<open>Common vocabulary\<close>

text \<open>
  JavaScript exceptions are values. \<open>TypeError\<close> is what the runtime raises for a
  property read on \<open>undefined\<close>/\<open>null\<close> or a call of a missing method;
  \<open>Thrown msg\<close> is an \<open>Error\<close> with that message.
\<close>

datatype js_error = TypeError | Thrown string

text \<open>
  \<open>fs.writeFileSync\<close> is called inside \<open>try\<close>/\<open>catch\<close> everywhere in the service, so its
  failure is a branch of every caller. A write either succeeds, or throws before the target
  was touched (for instance a permission error at open), or stops after the target was
  opened for writing and truncated (for instance a full disk): then the file holds a
  strict prefix of the serialised object, which no JSON parser accepts.
\<close>

datatype write_outcome = WriteOk | WriteFails | WriteTorn

section \<open>Numbers\<close>

text \<open>
  A JavaScript number is an IEEE double. The token counts and the block heights are
  whole numbers, and sums and differences of whole doubles are whole, so the numbers of
  the model are the doubles with an integer value, the two infinities and NaN.

  A double has a significand of 53 bits: a whole number \<open>n\<close> is a double when it is a
  multiple of \<open>ulp n\<close>, the power of two that leaves 53 bits, and lies below \<open>2^1024\<close>.
  \<open>round_nat\<close> rounds to the nearest such multiple, a tie to the even significand, as the
  processor does; \<open>js_round\<close> does so for either sign.
\<close>

function ulp :: "nat \<Rightarrow> nat" where
  "ulp n = (if n < 2 ^ 53 then 1 else 2 * ulp (n div 2))"
  by pat_completeness auto
termination
  by (relation "measure id") auto

declare ulp.simps [simp del]

definition round_nat :: "nat \<Rightarrow> nat" where
  "round_nat n =
     (let q = ulp n; m = n div q; r = n mod q
      in if 2 * r < q \<or> (2 * r = q \<and> even m) then m * q else (m + 1) * q)"

definition js_round :: "int \<Rightarrow> int" where
  "js_round z = (if z < 0 then - int (round_nat (nat (- z))) else int (round_nat (nat z)))"

definition is_double :: "int \<Rightarrow> bool" where
  "is_double z \<longleftrightarrow> ulp (nat \<bar>z\<bar>) dvd nat \<bar>z\<bar> \<and> \<bar>z\<bar> < 2 ^ 1024"

text \<open>The finite doubles with an integer value: \<open>dval\<close> is the value, \<open>dbl\<close> the double.\<close>

typedef dnum = "{z :: int. is_double z}"
  morphisms dval dbl
  by (rule exI [of _ 0]) (simp add: is_double_def)

datatype jsnum = Fin dnum | PosInf | NegInf | NaN

text \<open>The result of an exact sum or difference, as a double: rounded, or an infinity.\<close>

definition double_of :: "int \<Rightarrow> jsnum" where
  "double_of z =
     (let r = js_round z
      in if 2 ^ 1024 \<le> r then PosInf else if r \<le> - (2 ^ 1024) then NegInf else Fin (dbl r))"

text \<open>
  A number in a JSON file is a finite double or \<open>null\<close> (\<open>None\<close>): \<open>JSON.stringify\<close>
  writes \<open>null\<close> for an infinity and for NaN. In arithmetic and in comparisons \<open>null\<close>
  counts as 0.
\<close>

definition json_num :: "jsnum \<Rightarrow> dnum option" where
  "json_num x = (case x of Fin d \<Rightarrow> Some d | _ \<Rightarrow> None)"

definition to_number :: "dnum option \<Rightarrow> jsnum" where
  "to_number x = (case x of None \<Rightarrow> Fin (dbl 0) | Some d \<Rightarrow> Fin d)"

fun js_add :: "jsnum \<Rightarrow> jsnum \<Rightarrow> jsnum" where
  "js_add (Fin x) (Fin y) = double_of (dval x + dval y)"
| "js_add NaN b = NaN"
| "js_add a NaN = NaN"
| "js_add PosInf NegInf = NaN"
| "js_add NegInf PosInf = NaN"
| "js_add PosInf b = PosInf"
| "js_add a PosInf = PosInf"
| "js_add NegInf b = NegInf"
| "js_add a NegInf = NegInf"

fun js_sub :: "jsnum \<Rightarrow> jsnum \<Rightarrow> jsnum" where
  "js_sub (Fin x) (Fin y) = double_of (dval x - dval y)"
| "js_sub NaN b = NaN"
| "js_sub a NaN = NaN"
| "js_sub PosInf PosInf = NaN"
| "js_sub NegInf NegInf = NaN"
| "js_sub PosInf b = PosInf"
| "js_sub a NegInf = PosInf"
| "js_sub NegInf b = NegInf"
| "js_sub a PosInf = NegInf"

text \<open>\<open>a <= b\<close>: false as soon as one side is NaN.\<close>

fun js_le :: "jsnum \<Rightarrow> jsnum \<Rightarrow> bool" where
  "js_le (Fin x) (Fin y) = (dval x \<le> dval y)"
| "js_le NaN b = False"
| "js_le a NaN = False"
| "js_le NegInf b = True"
| "js_le a PosInf = True"
| "js_le PosInf b = False"
| "js_le a NegInf = False"

text \<open>
  \<open>!a\<close> for a number: zero and NaN are falsy. \<open>a === b\<close> where \<open>a\<close> may be \<open>undefined\<close>:
  NaN equals nothing. \<open>a % b === 0\<close>: the remainder of whole doubles is exact, it is
  NaN for an infinite dividend or a zero divisor, and the dividend itself for an
  infinite divisor.
\<close>

definition js_falsy :: "jsnum \<Rightarrow> bool" where
  "js_falsy x = (case x of Fin d \<Rightarrow> dval d = 0 | NaN \<Rightarrow> True | _ \<Rightarrow> False)"

definition js_same :: "jsnum option \<Rightarrow> jsnum \<Rightarrow> bool" where
  "js_same a b = (case a of None \<Rightarrow> False | Some x \<Rightarrow> x = b \<and> b \<noteq> NaN)"

fun js_rem_zero :: "jsnum \<Rightarrow> jsnum \<Rightarrow> bool" where
  "js_rem_zero (Fin x) (Fin y) = (dval y \<noteq> 0 \<and> dval y dvd dval x)"
| "js_rem_zero (Fin x) PosInf = (dval x = 0)"
| "js_rem_zero (Fin x) NegInf = (dval x = 0)"
| "js_rem_zero a b = False"

text \<open>\<open>Number.isSafeInteger\<close>: a whole number of magnitude below \<open>2^53\<close>.\<close>

definition safe :: "jsnum \<Rightarrow> bool" where
  "safe x = (case x of Fin d \<Rightarrow> \<bar>dval d\<bar> < 2 ^ 53 | _ \<Rightarrow> False)"

text \<open>A JavaScript string as its UTF-16 code units, where the characters matter.\<close>

type_synonym ustring = "nat list"

definition ascii :: "string \<Rightarrow> ustring" where
  "ascii s = map of_char s"

section \<open>Quota ledger: \<open>UserManager\<close>\<close>

text \<open>
  A requester record and the metadata as \<open>authorized_users.json\<close> holds them. Every
  count is a whole number or \<open>null\<close>, which is what \<open>JSON.stringify\<close> makes of a count
  that has become infinite or NaN. The mail address is \<open>null\<close> or a string.
\<close>

record user =
  tokens_allocated :: "dnum option"
  tokens_used :: "dnum option"
  tokens_remaining :: "dnum option"
  email :: "ustring option"
  created_at :: string
  last_used :: "string option"
  is_active :: bool
  user_notes :: string

record metadata =
  last_updated :: string
  total_users :: "dnum option"
  total_tokens_allocated :: "dnum option"
  total_tokens_used :: "dnum option"

record userdata =
  authorized_users :: "string \<rightharpoonup> user"
  metadata :: metadata

text \<open>
  What \<open>authorized_users.json\<close> holds, as \<open>loadData\<close> sees it: \<open>UsersUnreadable\<close> when
  reading or parsing throws (\<open>loadData\<close> returns \<open>null\<close>), \<open>UsersTruncated\<close> likewise, after
  a write that stopped part-way, \<open>UsersNoTable\<close> when the parsed value has no
  \<open>authorized_users\<close> property, \<open>UsersData\<close> otherwise.
\<close>

datatype users_file = UsersUnreadable | UsersTruncated | UsersNoTable | UsersData userdata

text \<open>
  \<open>data.authorized_users[username]\<close> looks the name up in the object and then in
  \<open>Object.prototype\<close>: for a name that is not a key of the table but is the name of a
  property every object inherits, the read returns that function or object, which is
  truthy and has none of the fields of a user record.
\<close>

definition object_prototype_names :: "string list" where
  "object_prototype_names =
     [''constructor'', ''__defineGetter__'', ''__defineSetter__'', ''hasOwnProperty'',
      ''__lookupGetter__'', ''__lookupSetter__'', ''isPrototypeOf'',
      ''propertyIsEnumerable'', ''toString'', ''valueOf'', ''__proto__'',
      ''toLocaleString'']"

datatype lookup = Own user | Inherited | Missing

definition lookup_user :: "userdata \<Rightarrow> string \<Rightarrow> lookup" where
  "lookup_user d name =
     (case authorized_users d name of
        Some u \<Rightarrow> Own u
      | None \<Rightarrow> if name \<in> set object_prototype_names then Inherited else Missing)"

text \<open>
  \<open>saveData\<close>: stamps \<open>metadata.last_updated\<close>, writes the whole object, returns whether
  the write went through. The first argument is the outcome of \<open>writeFileSync\<close>, the
  second the clock.
\<close>

definition saveData :: "write_outcome \<Rightarrow> string \<Rightarrow> userdata \<Rightarrow> users_file \<Rightarrow> bool \<times> users_file" where
  "saveData wo now d f =
     (case wo of
        WriteOk \<Rightarrow> (True, UsersData (d\<lparr>metadata := (metadata d)\<lparr>last_updated := now\<rparr>\<rparr>))
      | WriteFails \<Rightarrow> (False, f)
      | WriteTorn \<Rightarrow> (False, UsersTruncated))"

record auth_check =
  authorized :: bool
  reason :: "string option"
  ac_tokens_remaining :: "dnum option"
  ac_tokens_used :: "dnum option"
  ac_tokens_allocated :: "dnum option"
  user_info :: "user option"

text \<open>
  \<open>checkAuthorization\<close>. An inherited property has no \<open>is_active\<close>, so the answer for
  such a name is that the account is deactivated.
\<close>

definition checkAuthorization :: "users_file \<Rightarrow> string \<Rightarrow> auth_check" where
  "checkAuthorization f name =
     (let deny = (\<lambda>r. \<lparr>authorized = False, reason = Some r, ac_tokens_remaining = None,
                       ac_tokens_used = None, ac_tokens_allocated = None, user_info = None\<rparr>)
      in case f of
        UsersUnreadable \<Rightarrow> deny ''Database error''
      | UsersTruncated \<Rightarrow> deny ''Database error''
      | UsersNoTable \<Rightarrow> deny ''Database error''
      | UsersData d \<Rightarrow>
          (case lookup_user d name of
             Missing \<Rightarrow> deny ''User not found in authorized list''
           | Inherited \<Rightarrow> deny ''User account is deactivated''
           | Own u \<Rightarrow>
               if \<not> is_active u then deny ''User account is deactivated''
               else if js_le (to_number (tokens_remaining u)) (Fin (dbl 0)) then
                 (deny ''No tokens remaining'')
                   \<lparr>ac_tokens_used := tokens_used u,
                    ac_tokens_allocated := tokens_allocated u\<rparr>
               else \<lparr>authorized = True, reason = None,
                      ac_tokens_remaining = tokens_remaining u,
                      ac_tokens_used = tokens_used u,
                      ac_tokens_allocated = tokens_allocated u,
                      user_info = Some u\<rparr>))"

text \<open>
  \<open>useToken\<close>. On a file without the \<open>authorized_users\<close> table the guard
  \<open>data.authorized_users[username]\<close> itself throws. For an inherited name the guard
  passes, \<open>undefined <= 0\<close> is false, the two counts are set on the inherited object, which
  is not part of the file, and the total in the metadata is raised and saved.
\<close>

definition useToken :: "write_outcome \<Rightarrow> string \<Rightarrow> string \<Rightarrow> users_file \<Rightarrow> js_error + (bool \<times> users_file)" where
  "useToken wo now name f =
     (case f of
        UsersUnreadable \<Rightarrow> Inr (False, f)
      | UsersTruncated \<Rightarrow> Inr (False, f)
      | UsersNoTable \<Rightarrow> Inl TypeError
      | UsersData d \<Rightarrow>
          (let total = json_num (js_add (to_number (total_tokens_used (metadata d)))
                                   (Fin (dbl 1)))
           in case lookup_user d name of
             Missing \<Rightarrow> Inr (False, f)
           | Inherited \<Rightarrow>
               Inr (saveData wo now
                      (d\<lparr>metadata := (metadata d)\<lparr>total_tokens_used := total\<rparr>\<rparr>) f)
           | Own u \<Rightarrow>
               if js_le (to_number (tokens_remaining u)) (Fin (dbl 0)) then Inr (False, f)
               else
                 let u' = u\<lparr>tokens_used :=
                              json_num (js_add (to_number (tokens_used u)) (Fin (dbl 1))),
                            tokens_remaining :=
                              json_num (js_sub (to_number (tokens_remaining u)) (Fin (dbl 1))),
                            last_used := Some now\<rparr>;
                     d' = d\<lparr>authorized_users := (authorized_users d)(name \<mapsto> u'),
                            metadata := (metadata d)\<lparr>total_tokens_used := total\<rparr>\<rparr>
                 in Inr (saveData wo now d' f)))"

text \<open>
  The administrative mutations return \<open>{success, message}\<close>; \<open>addUser\<close> returns the bare
  \<open>false\<close> when the file cannot be loaded, which is \<open>None\<close> here. A message is a fixed
  text or a template with its arguments, the numbers as they are in memory.
\<close>

datatype message =
    Literal string
  | UserAdded string jsnum
  | TokensAdded jsnum string jsnum
  | TokensSet string jsnum jsnum

record flagged =
  success :: bool

record op_result = flagged +
  message :: message

definition addUser ::
  "write_outcome \<Rightarrow> string \<Rightarrow> string \<Rightarrow> jsnum \<Rightarrow> ustring option \<Rightarrow> string \<Rightarrow> users_file
     \<Rightarrow> js_error + (op_result option \<times> users_file)" where
  "addUser wo now name tokens mail nts f =
     (case f of
        UsersUnreadable \<Rightarrow> Inr (None, f)
      | UsersTruncated \<Rightarrow> Inr (None, f)
      | UsersNoTable \<Rightarrow> Inl TypeError
      | UsersData d \<Rightarrow>
          (case lookup_user d name of
             Own u \<Rightarrow> Inr (Some \<lparr>success = False, message = Literal ''User already exists''\<rparr>, f)
           | Inherited \<Rightarrow>
               Inr (Some \<lparr>success = False, message = Literal ''User already exists''\<rparr>, f)
           | Missing \<Rightarrow>
               let u' = \<lparr>tokens_allocated = json_num tokens, tokens_used = Some (dbl 0),
                         tokens_remaining = json_num tokens,
                         email = mail, created_at = now, last_used = None, is_active = True,
                         user_notes = nts\<rparr>;
                   d' = d\<lparr>authorized_users := (authorized_users d)(name \<mapsto> u'),
                          metadata := (metadata d)
                            \<lparr>total_users :=
                               json_num (js_add (to_number (total_users (metadata d)))
                                           (Fin (dbl 1))),
                             total_tokens_allocated :=
                               json_num (js_add (to_number (total_tokens_allocated (metadata d)))
                                           tokens)\<rparr>\<rparr>;
                   (saved, f') = saveData wo now d' f
               in Inr (Some \<lparr>success = saved,
                             message = (if saved then UserAdded name tokens
                                        else Literal ''Failed to save'')\<rparr>, f')))"

text \<open>
  \<open>giveTokens\<close> and \<open>setTokens\<close>. For an inherited name the counts are \<open>undefined\<close>, so
  the sums and differences with them are NaN; they land on the inherited object, and
  only the metadata goes to the file.
\<close>

definition giveTokens ::
  "write_outcome \<Rightarrow> string \<Rightarrow> string \<Rightarrow> jsnum \<Rightarrow> users_file \<Rightarrow> js_error + (op_result \<times> users_file)" where
  "giveTokens wo now name additionalTokens f =
     (case f of
        UsersUnreadable \<Rightarrow> Inr (\<lparr>success = False, message = Literal ''User not found''\<rparr>, f)
      | UsersTruncated \<Rightarrow> Inr (\<lparr>success = False, message = Literal ''User not found''\<rparr>, f)
      | UsersNoTable \<Rightarrow> Inl TypeError
      | UsersData d \<Rightarrow>
          (let total = json_num (js_add (to_number (total_tokens_allocated (metadata d)))
                                   additionalTokens);
               finish = (\<lambda>d' allocated.
                 let (saved, f') = saveData wo now d' f
                 in Inr (\<lparr>success = saved,
                          message = (if saved then TokensAdded additionalTokens name allocated
                                     else Literal ''Failed to save'')\<rparr>, f'))
           in case lookup_user d name of
             Missing \<Rightarrow> Inr (\<lparr>success = False, message = Literal ''User not found''\<rparr>, f)
           | Inherited \<Rightarrow>
               finish (d\<lparr>metadata := (metadata d)\<lparr>total_tokens_allocated := total\<rparr>\<rparr>) NaN
           | Own u \<Rightarrow>
               let allocated = js_add (to_number (tokens_allocated u)) additionalTokens;
                   remaining = js_add (to_number (tokens_remaining u)) additionalTokens;
                   u' = u\<lparr>tokens_allocated := json_num allocated,
                          tokens_remaining := json_num remaining\<rparr>
               in finish (d\<lparr>authorized_users := (authorized_users d)(name \<mapsto> u'),
                            metadata := (metadata d)\<lparr>total_tokens_allocated := total\<rparr>\<rparr>)
                    allocated))"

definition setTokens ::
  "write_outcome \<Rightarrow> string \<Rightarrow> string \<Rightarrow> jsnum \<Rightarrow> users_file \<Rightarrow> js_error + (op_result \<times> users_file)" where
  "setTokens wo now name newTotal f =
     (case f of
        UsersUnreadable \<Rightarrow> Inr (\<lparr>success = False, message = Literal ''User not found''\<rparr>, f)
      | UsersTruncated \<Rightarrow> Inr (\<lparr>success = False, message = Literal ''User not found''\<rparr>, f)
      | UsersNoTable \<Rightarrow> Inl TypeError
      | UsersData d \<Rightarrow>
          (let finish = (\<lambda>d' remaining.
                 let (saved, f') = saveData wo now d' f
                 in Inr (\<lparr>success = saved,
                          message = (if saved then TokensSet name newTotal remaining
                                     else Literal ''Failed to save'')\<rparr>, f'))
           in case lookup_user d name of
             Missing \<Rightarrow> Inr (\<lparr>success = False, message = Literal ''User not found''\<rparr>, f)
           | Inherited \<Rightarrow>
               finish (d\<lparr>metadata := (metadata d)
                            \<lparr>total_tokens_allocated :=
                               json_num (js_add (to_number (total_tokens_allocated (metadata d)))
                                           NaN)\<rparr>\<rparr>) NaN
           | Own u \<Rightarrow>
               let difference = js_sub newTotal (to_number (tokens_allocated u));
                   remaining = js_sub newTotal (to_number (tokens_used u));
                   u' = u\<lparr>tokens_allocated := json_num newTotal,
                          tokens_remaining := json_num remaining\<rparr>
               in finish (d\<lparr>authorized_users := (authorized_users d)(name \<mapsto> u'),
                            metadata := (metadata d)
                              \<lparr>total_tokens_allocated :=
                                 json_num (js_add (to_number (total_tokens_allocated (metadata d)))
                                             difference)\<rparr>\<rparr>)
                    remaining))"

text \<open>
  \<open>getUser\<close> without its exception: the record stored for a requester, if the file has one.
\<close>

definition user_of :: "users_file \<Rightarrow> string \<Rightarrow> user option" where
  "user_of f name =
     (case f of UsersData d \<Rightarrow> authorized_users d name | _ \<Rightarrow> None)"

text \<open>The file a mutation leaves behind; a mutation that throws has written nothing.\<close>

definition file_after :: "js_error + ('r \<times> users_file) \<Rightarrow> users_file \<Rightarrow> users_file" where
  "file_after res f = (case res of Inl e \<Rightarrow> f | Inr (r, f') \<Rightarrow> f')"

text \<open>
  The properties of a record: the three counts are numbers and
  \<open>tokens_used + tokens_remaining = tokens_allocated\<close>; \<open>0 <= tokens_remaining\<close> and
  \<open>0 <= tokens_used\<close>; \<open>tokens_used\<close> has not gone down; \<open>tokens_used <= n\<close>.
\<close>

definition balanced :: "user option \<Rightarrow> bool" where
  "balanced uo =
     (case uo of None \<Rightarrow> True
      | Some u \<Rightarrow>
          (case (tokens_used u, tokens_remaining u, tokens_allocated u) of
             (Some used, Some remaining, Some allocated) \<Rightarrow>
               dval used + dval remaining = dval allocated
           | _ \<Rightarrow> False))"

definition nonneg :: "user option \<Rightarrow> bool" where
  "nonneg uo =
     (case uo of None \<Rightarrow> True
      | Some u \<Rightarrow> js_le (Fin (dbl 0)) (to_number (tokens_remaining u))
                \<and> js_le (Fin (dbl 0)) (to_number (tokens_used u)))"

definition remaining_ok :: "user option \<Rightarrow> bool" where
  "remaining_ok uo =
     (case uo of None \<Rightarrow> True
      | Some u \<Rightarrow> js_le (Fin (dbl 0)) (to_number (tokens_remaining u)))"

definition used_grows :: "user option \<Rightarrow> user option \<Rightarrow> bool" where
  "used_grows before after =
     (case (before, after) of
        (Some u, Some u') \<Rightarrow> js_le (to_number (tokens_used u)) (to_number (tokens_used u'))
      | _ \<Rightarrow> True)"

definition used_at_most :: "user option \<Rightarrow> jsnum \<Rightarrow> bool" where
  "used_at_most uo n =
     (case uo of None \<Rightarrow> True | Some u \<Rightarrow> js_le (to_number (tokens_used u)) n)"

text \<open>
  Where the arithmetic of a mutation is exact: every count that the mutation writes into
  the record is a safe integer.
\<close>

definition use_safe :: "user option \<Rightarrow> bool" where
  "use_safe uo =
     (case uo of None \<Rightarrow> True
      | Some u \<Rightarrow> safe (js_add (to_number (tokens_used u)) (Fin (dbl 1)))
                \<and> safe (js_sub (to_number (tokens_remaining u)) (Fin (dbl 1))))"

definition give_safe :: "user option \<Rightarrow> jsnum \<Rightarrow> bool" where
  "give_safe uo n =
     (case uo of None \<Rightarrow> True
      | Some u \<Rightarrow> safe (js_add (to_number (tokens_allocated u)) n)
                \<and> safe (js_add (to_number (tokens_remaining u)) n))"

definition set_safe :: "user option \<Rightarrow> jsnum \<Rightarrow> bool" where
  "set_safe uo n =
     (case uo of None \<Rightarrow> True
      | Some u \<Rightarrow> safe n \<and> safe (js_sub n (to_number (tokens_used u))))"

text \<open>
  Ledgers for the examples: in one \<open>alice\<close> has used 3 of 5 tokens, in the other \<open>bob\<close>
  has used 2 of 5.
\<close>

definition alice :: user where
  "alice = \<lparr>tokens_allocated = Some (dbl 5), tokens_used = Some (dbl 3),
            tokens_remaining = Some (dbl 2),
            email = Some (ascii ''alice@example.org''),
            created_at = ''2025-01-01T00:00:00.000Z'',
            last_used = None, is_active = True, user_notes = ''''\<rparr>"

definition ledger0 :: users_file where
  "ledger0 = UsersData \<lparr>authorized_users = [''alice'' \<mapsto> alice],
       metadata = \<lparr>last_updated = ''2025-01-01T00:00:00.000Z'', total_users = Some (dbl 1),
                   total_tokens_allocated = Some (dbl 5), total_tokens_used = Some (dbl 3)\<rparr>\<rparr>"

definition bob :: user where
  "bob = \<lparr>tokens_allocated = Some (dbl 5), tokens_used = Some (dbl 2),
          tokens_remaining = Some (dbl 3), email = None,
          created_at = ''2025-01-01T00:00:00.000Z'',
          last_used = None, is_active = True, user_notes = []\<rparr>"

definition ledger1 :: users_file where
  "ledger1 = UsersData \<lparr>authorized_users = [''bob'' \<mapsto> bob],
       metadata = \<lparr>last_updated = ''2025-01-01T00:00:00.000Z'', total_users = Some (dbl 1),
                   total_tokens_allocated = Some (dbl 5), total_tokens_used = Some (dbl 2)\<rparr>\<rparr>"

section \<open>Request validator\<close>

text \<open>
  What \<open>JSON.parse\<close> can return, plus \<open>undefined\<close> for a property that is not there.
  Only the sign of a number matters below, so numbers are integers.
\<close>

datatype jsval =
    JUndefined
  | JNull
  | JBool bool
  | JNum int
  | JStr string
  | JArr "jsval list"
  | JObj "(string \<times> jsval) list"

fun truthy :: "jsval \<Rightarrow> bool" where
  "truthy JUndefined = False"
| "truthy JNull = False"
| "truthy (JBool b) = b"
| "truthy (JNum n) = (n \<noteq> 0)"
| "truthy (JStr s) = (s \<noteq> [])"
| "truthy (JArr xs) = True"
| "truthy (JObj kvs) = True"

text \<open>
  Property read \<open>v.k\<close>, for the property names of the request envelope (none of them is
  a built-in property of a string, number, boolean, array or object): a \<open>TypeError\<close> on
  \<open>undefined\<close> and \<open>null\<close>, the stored value on an object that has the key, \<open>undefined\<close>
  in every other case.
\<close>

fun get_field :: "jsval \<Rightarrow> string \<Rightarrow> js_error + jsval" where
  "get_field JUndefined k = Inl TypeError"
| "get_field JNull k = Inl TypeError"
| "get_field (JObj kvs) k = Inr (case map_of kvs k of None \<Rightarrow> JUndefined | Some v \<Rightarrow> v)"
| "get_field v k = Inr JUndefined"

text \<open>A chained read \<open>e.k\<close>, where evaluating \<open>e\<close> may already have thrown.\<close>

definition field_of :: "js_error + jsval \<Rightarrow> string \<Rightarrow> js_error + jsval" where
  "field_of e k = (case e of Inl err \<Rightarrow> Inl err | Inr v \<Rightarrow> get_field v k)"

text \<open>\<open>e === 'literal'\<close>.\<close>

definition strict_eq :: "js_error + jsval \<Rightarrow> string \<Rightarrow> js_error + jsval" where
  "strict_eq e s = (case e of Inl err \<Rightarrow> Inl err | Inr v \<Rightarrow> Inr (JBool (v = JStr s)))"

text \<open>
  \<open>a && b\<close>: the value of \<open>a\<close> when it is falsy (then \<open>b\<close> is not evaluated, so what it
  would have thrown is dropped), the value of \<open>b\<close> otherwise.
\<close>

definition js_and :: "js_error + jsval \<Rightarrow> js_error + jsval \<Rightarrow> js_error + jsval" where
  "js_and a b = (case a of Inl err \<Rightarrow> Inl err | Inr v \<Rightarrow> if truthy v then b else Inr v)"

definition validateRequest :: "jsval \<Rightarrow> js_error + jsval" where
  "validateRequest data =
     js_and (strict_eq (get_field data ''app'') ''hive_account_faucet'')
    (js_and (strict_eq (get_field data ''version'') ''1.0.0'')
    (js_and (strict_eq (get_field data ''action'') ''create_account_request'')
    (js_and (get_field data ''data'')
    (js_and (field_of (get_field data ''data'') ''requested_username'')
            (field_of (get_field data ''data'') ''delivery_method'')))))"

text \<open>
  How \<open>processCustomJson\<close> reads the result: \<open>if (this.validateRequest(requestData))\<close>
  inside a \<open>try\<close> block, so the request goes on exactly when a truthy value comes back.
\<close>

definition accepts :: "jsval \<Rightarrow> bool" where
  "accepts data = (case validateRequest data of Inl err \<Rightarrow> False | Inr v \<Rightarrow> truthy v)"

text \<open>
  The condition in the words of the specification: the three fixed strings, and
  \<open>data.data\<close> present with non-empty \<open>requested_username\<close> and \<open>delivery_method\<close>; a
  field that is missing or has the wrong type fails. \<open>read_prop\<close> is the read that gives
  \<open>undefined\<close> where there is nothing to read.
\<close>

definition read_prop :: "jsval \<Rightarrow> string \<Rightarrow> jsval" where
  "read_prop v k = (case get_field v k of Inl err \<Rightarrow> JUndefined | Inr x \<Rightarrow> x)"

definition nonempty_string :: "jsval \<Rightarrow> bool" where
  "nonempty_string v = (case v of JStr s \<Rightarrow> s \<noteq> [] | _ \<Rightarrow> False)"

definition spec_valid :: "jsval \<Rightarrow> bool" where
  "spec_valid data \<longleftrightarrow>
     read_prop data ''app'' = JStr ''hive_account_faucet''
   \<and> read_prop data ''version'' = JStr ''1.0.0''
   \<and> read_prop data ''action'' = JStr ''create_account_request''
   \<and> nonempty_string (read_prop (read_prop data ''data'') ''requested_username'')
   \<and> nonempty_string (read_prop (read_prop data ''data'') ''delivery_method'')"

text \<open>A field that is a string, or is not there at all.\<close>

definition string_or_absent :: "jsval \<Rightarrow> bool" where
  "string_or_absent v = (case v of JStr s \<Rightarrow> True | JUndefined \<Rightarrow> True | _ \<Rightarrow> False)"

text \<open>Example envelopes.\<close>

definition envelope :: "jsval \<Rightarrow> jsval \<Rightarrow> jsval" where
  "envelope name method =
     JObj [(''app'', JStr ''hive_account_faucet''), (''version'', JStr ''1.0.0''),
           (''action'', JStr ''create_account_request''),
           (''data'', JObj [(''requested_username'', name), (''delivery_method'', method),
                             (''timestamp'', JStr ''2025-01-01T00:00:00.000Z'')])]"

section \<open>The monitor's files: pending credentials and block cursor\<close>

text \<open>
  \<open>accountData\<close> as \<open>processAccountRequest\<close> builds it, and the record \<open>addPending\<close>
  stores: the same fields plus \<open>created_at\<close>.
\<close>

record account_data =
  username :: string
  masterPassword :: string
  ownerKey :: string
  activeKey :: string
  postingKey :: string
  memoKey :: string
  transactionId :: "string option"
  requester :: string

record pending_record = account_data +
  pending_created_at :: string

text \<open>
  What \<open>pending_credentials.json\<close> holds, as \<open>loadPending\<close> sees it: \<open>PendingUnreadable\<close>
  when the file is missing or unreadable or its text is not JSON (or is the JSON \<open>null\<close>),
  so that the \<open>try\<close> block throws; \<open>PendingTruncated\<close> when a write has stopped part-way:
  \<open>writeFileSync\<close> has emptied the file and put there a proper prefix of the new text,
  which is never JSON, because the new text is an object whose closing brace is its last
  character; \<open>PendingNoList\<close> when the parsed value has no truthy \<open>pending\<close> property;
  \<open>PendingNotArray\<close> when \<open>pending\<close> is truthy but not an array; \<open>PendingList\<close> otherwise.
\<close>

datatype pending_file =
    PendingUnreadable
  | PendingTruncated
  | PendingNoList
  | PendingNotArray
  | PendingList "pending_record list"

text \<open>
  What \<open>last_block.json\<close> and its \<open>.tmp\<close> sibling hold: nothing, something that cannot be
  read or parsed, the proper prefix that a write left which stopped part-way, or a
  document with \<open>lastProcessedBlock\<close> (a number or \<open>null\<close>) and \<open>savedAt\<close>. Heights are
  whole numbers, as the node counts blocks.
\<close>

datatype cursor_file =
    CursorMissing
  | CursorUnreadable
  | CursorTruncated
  | CursorDoc "dnum option" string

datatype path = RecoveryFile | LastBlockFile | LastBlockTmp

datatype fs_call = WriteFileSync path | RenameSync path path

record chain_account =
  memo_key :: string
  hbd_balance :: int

text \<open>
  Calls that sign and broadcast: \<open>client.broadcast.sendOperations\<close> with the
  \<open>create_claimed_account\<close> operation (creator, new name, the four public keys) and
  \<open>hive.broadcast.transfer\<close> (from, to, amount, memo).
\<close>

datatype chain_call =
    CreateClaimedAccount "string option" string string string string string
  | Transfer "string option" string string string

record mail =
  mail_to :: ustring
  mail_account :: account_data

text \<open>Everything outside the process that the service reads or changes.\<close>

record world =
  users_file :: users_file
  recovery_file :: pending_file
  last_block_file :: cursor_file
  last_block_tmp :: cursor_file
  fs_calls :: "fs_call list"
  chain_calls :: "chain_call list"
  mails :: "mail list"

text \<open>
  \<open>loadPending\<close> returns \<open>JSON.parse(raw).pending || []\<close>, or \<open>[]\<close> when anything throws:
  an array, or whatever truthy value the file had under \<open>pending\<close>.
\<close>

datatype loaded = LoadedList "pending_record list" | LoadedOther

definition loadPending :: "world \<Rightarrow> loaded" where
  "loadPending w =
     (case recovery_file w of
        PendingUnreadable \<Rightarrow> LoadedList []
      | PendingTruncated \<Rightarrow> LoadedList []
      | PendingNoList \<Rightarrow> LoadedList []
      | PendingNotArray \<Rightarrow> LoadedOther
      | PendingList l \<Rightarrow> LoadedList l)"

text \<open>
  \<open>savePending\<close>: one \<open>fs.writeFileSync\<close> on the recovery file itself; an exception is
  caught and logged. A write that fails before it has opened the file leaves the file
  as it was; one that stops part-way leaves the file truncated.
\<close>

definition savePending :: "write_outcome \<Rightarrow> pending_record list \<Rightarrow> world \<Rightarrow> world" where
  "savePending wo list w =
     (let w1 = w\<lparr>fs_calls := fs_calls w @ [WriteFileSync RecoveryFile]\<rparr>
      in case wo of
           WriteOk \<Rightarrow> w1\<lparr>recovery_file := PendingList list\<rparr>
         | WriteFails \<Rightarrow> w1
         | WriteTorn \<Rightarrow> w1\<lparr>recovery_file := PendingTruncated\<rparr>)"

text \<open>\<open>list.push\<close> and \<open>.filter\<close> exist on arrays only; on anything else the call throws.\<close>

definition addPending :: "write_outcome \<Rightarrow> pending_record \<Rightarrow> world \<Rightarrow> js_error + world" where
  "addPending wo record w =
     (case loadPending w of
        LoadedOther \<Rightarrow> Inl TypeError
      | LoadedList list \<Rightarrow> Inr (savePending wo (list @ [record]) w))"

definition removePending :: "write_outcome \<Rightarrow> string \<Rightarrow> world \<Rightarrow> js_error + world" where
  "removePending wo name w =
     (case loadPending w of
        LoadedOther \<Rightarrow> Inl TypeError
      | LoadedList list \<Rightarrow> Inr (savePending wo (filter (\<lambda>r. username r \<noteq> name) list) w))"

text \<open>The records a reader of the recovery file gets, and whether one is for a given name.\<close>

definition pending_records :: "world \<Rightarrow> pending_record list" where
  "pending_records w = (case recovery_file w of PendingList l \<Rightarrow> l | _ \<Rightarrow> [])"

definition has_pending :: "world \<Rightarrow> string \<Rightarrow> bool" where
  "has_pending w name = (name \<in> set (map username (pending_records w)))"

text \<open>
  The fields of a \<open>BlockchainMonitor\<close> instance. \<open>_lastSavedBlock\<close> is \<open>undefined\<close> until
  the first save.
\<close>

record monitor =
  isRunning :: bool
  lastProcessedBlock :: jsnum
  blockSaveInterval :: jsnum
  lastSavedBlock :: "jsnum option"
  creatingAccount :: "string option"
  creatingActiveKey :: "string option"
  creatingMemoKey :: "string option"
  emailConfigured :: bool

text \<open>
  \<open>saveLastBlock(force)\<close>: nothing for a height that is falsy (zero or NaN) or not above
  zero, nothing when the height was saved already (unless forced); otherwise the payload
  goes to \<open>last_block.json.tmp\<close> and the temporary file is renamed over
  \<open>last_block.json\<close>. Any exception is caught and logged. Arguments: the outcome of the
  write, whether the rename succeeds, the clock.
\<close>

definition saveLastBlock ::
  "bool \<Rightarrow> write_outcome \<Rightarrow> bool \<Rightarrow> string \<Rightarrow> monitor \<times> world \<Rightarrow> monitor \<times> world" where
  "saveLastBlock force wo rename_ok now mw =
     (let m = fst mw; w = snd mw in
      if js_falsy (lastProcessedBlock m) \<or> js_le (lastProcessedBlock m) (Fin (dbl 0))
      then (m, w)
      else if \<not> force \<and> js_same (lastSavedBlock m) (lastProcessedBlock m) then (m, w)
      else
        let payload = CursorDoc (json_num (lastProcessedBlock m)) now;
            w1 = w\<lparr>fs_calls := fs_calls w @ [WriteFileSync LastBlockTmp]\<rparr>
        in case wo of
             WriteFails \<Rightarrow> (m, w1)
           | WriteTorn \<Rightarrow> (m, w1\<lparr>last_block_tmp := CursorTruncated\<rparr>)
           | WriteOk \<Rightarrow>
               let w2 = w1\<lparr>last_block_tmp := payload,
                           fs_calls := fs_calls w1 @ [RenameSync LastBlockTmp LastBlockFile]\<rparr>
               in if rename_ok
                  then (m\<lparr>lastSavedBlock := Some (lastProcessedBlock m)\<rparr>,
                        w2\<lparr>last_block_file := payload, last_block_tmp := CursorMissing\<rparr>)
                  else (m, w2))"

text \<open>\<open>loadLastBlock\<close> takes the height from the file if it is a number.\<close>

definition loadLastBlock :: "monitor \<times> world \<Rightarrow> monitor" where
  "loadLastBlock mw =
     (case last_block_file (snd mw) of
        CursorDoc (Some n) s \<Rightarrow> (fst mw)\<lparr>lastProcessedBlock := Fin n\<rparr>
      | _ \<Rightarrow> fst mw)"

text \<open>Example worlds: an empty recovery file, and one that holds a record for \<open>olduser\<close>.\<close>

definition world0 :: world where
  "world0 = \<lparr>users_file = ledger0, recovery_file = PendingList [],
             last_block_file = CursorDoc (Some (dbl 100)) ''2025-01-01T00:00:00.000Z'',
             last_block_tmp = CursorMissing, fs_calls = [], chain_calls = [], mails = []\<rparr>"

definition old_record :: pending_record where
  "old_record = \<lparr>username = ''olduser'', masterPassword = ''P5old'', ownerKey = ''5Jo'',
                 activeKey = ''5Ja'', postingKey = ''5Jp'', memoKey = ''5Jm'',
                 transactionId = Some ''T0'', requester = ''alice'',
                 pending_created_at = ''2025-01-01T00:00:00.000Z''\<rparr>"

definition new_record :: pending_record where
  "new_record = \<lparr>username = ''newuser3'', masterPassword = ''P5new'', ownerKey = ''5Ko'',
                 activeKey = ''5Ka'', postingKey = ''5Kp'', memoKey = ''5Km'',
                 transactionId = Some ''T1'', requester = ''alice'',
                 pending_created_at = ''2025-01-02T00:00:00.000Z''\<rparr>"

section \<open>Provisioning and delivery\<close>

text \<open>
  \<open>generateAccountKeys\<close> derives four private keys and their public keys from the name
  and the master password with the cryptography of the dhive library; the derivation is
  a parameter here.
\<close>

record account_keys =
  key_owner :: string
  key_active :: string
  key_posting :: string
  key_memo :: string
  pub_owner :: string
  pub_active :: string
  pub_posting :: string
  pub_memo :: string

text \<open>
  What the outside answers while one request is processed, in the order of the calls:
  the clock, the random master password, the key derivation, the account lookup of
  \<open>checkUsernameAvailability\<close>, what \<open>PrivateKey.fromString\<close> throws (if it does), the
  reply to the account-creation broadcast (the transaction id), the write of
  \<open>addPending\<close>, the reply of \<open>sendMail\<close> (the message id), the account lookup of
  \<open>checkHBDBalance\<close>, the reply of \<open>hive.api.getAccounts\<close> for the recipient (an error
  message or the accounts), \<open>hive.memo.encode\<close>, the reply to the transfer (transaction id
  and block number), and the writes of \<open>useToken\<close> and \<open>removePending\<close>.
\<close>

record env =
  clock :: string
  new_password :: string
  derive_keys :: "string \<Rightarrow> string \<Rightarrow> account_keys"
  avail_reply :: "js_error + chain_account list"
  key_error :: "js_error option"
  create_reply :: "js_error + string"
  add_write :: write_outcome
  mail_reply :: "js_error + string"
  balance_reply :: "js_error + chain_account list"
  recipient_reply :: "string + chain_account list"
  memo_encode :: "string option \<Rightarrow> string \<Rightarrow> string \<Rightarrow> js_error + string"
  transfer_reply :: "string + string \<times> int"
  token_write :: write_outcome
  remove_write :: write_outcome

text \<open>
  \<open>error.message\<close>. The text of an error raised by the runtime itself is not modelled
  beyond its kind.
\<close>

definition error_message :: "js_error \<Rightarrow> string" where
  "error_message e = (case e of TypeError \<Rightarrow> ''TypeError'' | Thrown msg \<Rightarrow> msg)"

record creation_result = flagged +
  creation_tx :: "string option"
  creation_error :: "string option"
  creation_username :: string

definition checkUsernameAvailability :: "js_error + chain_account list \<Rightarrow> bool" where
  "checkUsernameAvailability reply =
     (case reply of Inl e \<Rightarrow> False | Inr accounts \<Rightarrow> accounts = [])"

text \<open>
  \<open>createHiveAccount\<close>: everything is inside one \<open>try\<close>, and every exception becomes a
  result with \<open>success: false\<close> and the message of the exception.
\<close>

definition createHiveAccount ::
  "env \<Rightarrow> string \<Rightarrow> account_keys \<Rightarrow> string option \<Rightarrow> string option \<Rightarrow> world
     \<Rightarrow> creation_result \<times> world" where
  "createHiveAccount e name keys creatorAccount creatorActiveKey w =
     (let failed = (\<lambda>msg. \<lparr>success = False, creation_tx = None, creation_error = Some msg,
                            creation_username = name\<rparr>)
      in if \<not> checkUsernameAvailability (avail_reply e)
         then (failed (''Username @'' @ name @ '' is already taken''), w)
         else case key_error e of
           Some err \<Rightarrow> (failed (error_message err), w)
         | None \<Rightarrow>
             let w1 = w\<lparr>chain_calls := chain_calls w @
                          [CreateClaimedAccount creatorAccount name (pub_owner keys)
                             (pub_active keys) (pub_posting keys) (pub_memo keys)]\<rparr>
             in case create_reply e of
                  Inl err \<Rightarrow> (failed (error_message err), w1)
                | Inr tx \<Rightarrow> (\<lparr>success = True, creation_tx = Some tx, creation_error = None,
                               creation_username = name\<rparr>, w1))"

text \<open>
  A channel result: \<open>success\<close> and, where the source sets it, \<open>error\<close>. The other
  properties of the result objects (\<open>messageId\<close>, \<open>reason\<close>, \<open>method\<close>, \<open>transactionId\<close>,
  \<open>blockNum\<close>) are read by nobody.
\<close>

record delivery_result = flagged +
  error :: "string option"

text \<open>
  \<open>EmailService.sendAccountCredentials\<close>: when the transporter is configured the mail
  is handed to it and its answer decides; otherwise the credentials are only logged.
\<close>

definition sendAccountCredentials ::
  "bool \<Rightarrow> js_error + string \<Rightarrow> ustring \<Rightarrow> account_data \<Rightarrow> world \<Rightarrow> delivery_result \<times> world" where
  "sendAccountCredentials configured reply userEmail accountData w =
     (if configured then
        (let w1 = w\<lparr>mails := mails w @ [\<lparr>mail_to = userEmail, mail_account = accountData\<rparr>]\<rparr>
         in case reply of
              Inr messageId \<Rightarrow> (\<lparr>success = True, error = None\<rparr>, w1)
            | Inl err \<Rightarrow> (\<lparr>success = False, error = Some (error_message err)\<rparr>, w1))
      else (\<lparr>success = False, error = None\<rparr>, w))"

text \<open>
  \<open>checkHBDBalance\<close> and \<open>canSendMemo\<close>. Balances are in thousandths of a HBD, the
  precision of the chain, so the minimum \<open>0.001\<close> is 1.
\<close>

definition checkHBDBalance :: "js_error + chain_account list \<Rightarrow> int" where
  "checkHBDBalance reply =
     (case reply of
        Inl e \<Rightarrow> 0
      | Inr [] \<Rightarrow> 0
      | Inr (account # rest) \<Rightarrow> hbd_balance account)"

definition canSendMemo :: "js_error + chain_account list \<Rightarrow> bool" where
  "canSendMemo reply = (let balance = checkHBDBalance reply; minimumRequired = 1
                        in balance \<ge> minimumRequired)"

text \<open>\<open>String.prototype.includes\<close>: is the second string a substring of the first?\<close>

fun starts_with :: "string \<Rightarrow> string \<Rightarrow> bool" where
  "starts_with s [] = True"
| "starts_with [] (p # ps) = False"
| "starts_with (c # cs) (p # ps) = (c = p \<and> starts_with cs ps)"

fun js_includes :: "string \<Rightarrow> string \<Rightarrow> bool" where
  "js_includes [] t = (t = [])"
| "js_includes (c # cs) t = (starts_with (c # cs) t \<or> js_includes cs t)"

definition memoMessage :: "account_data \<Rightarrow> string" where
  "memoMessage accountData =
     ''Account created: '' @ username accountData @ [CHR 0x0A]
     @ ''Master Password: '' @ masterPassword accountData @ [CHR 0x0A, CHR 0x0A]
     @ ''Import this to Keychain to access your account.''"

text \<open>
  \<open>sendAccountMemo\<close>: look the recipient up, encrypt, refuse to send a memo in which the
  name or the master password can be read, transfer. Every path resolves the promise
  with a result; the call of \<open>hive.broadcast.transfer\<close> is recorded when it is made.
\<close>

definition sendAccountMemo ::
  "monitor \<Rightarrow> env \<Rightarrow> string \<Rightarrow> account_data \<Rightarrow> world \<Rightarrow> delivery_result \<times> world" where
  "sendAccountMemo m e recipientUsername accountData w =
     (case recipient_reply e of
        Inl msg \<Rightarrow> (\<lparr>success = False, error = Some msg\<rparr>, w)
      | Inr [] \<Rightarrow>
          (\<lparr>success = False,
            error = Some (''Recipient account @'' @ recipientUsername @ '' not found'')\<rparr>, w)
      | Inr (account # rest) \<Rightarrow>
          (let recipientMemoKey = memo_key account in
           case memo_encode e (creatingMemoKey m) recipientMemoKey
                  (CHR ''#'' # memoMessage accountData) of
             Inl encryptError \<Rightarrow>
               (\<lparr>success = False, error = Some (error_message encryptError)\<rparr>, w)
           | Inr encryptedMemo \<Rightarrow>
               if js_includes encryptedMemo (username accountData)
                  \<or> js_includes encryptedMemo (masterPassword accountData)
               then (\<lparr>success = False,
                      error = Some ''Memo encryption failed - security risk detected''\<rparr>, w)
               else
                 (let w1 = w\<lparr>chain_calls := chain_calls w @
                              [Transfer (creatingAccount m) recipientUsername ''0.001 HBD''
                                 encryptedMemo]\<rparr>
                  in case transfer_reply e of
                       Inl msg \<Rightarrow> (\<lparr>success = False, error = Some msg\<rparr>, w1)
                     | Inr (tx, block_num) \<Rightarrow> (\<lparr>success = True, error = None\<rparr>, w1))))"

section \<open>One request: \<open>processAccountRequest\<close>\<close>

text \<open>
  A validated request as \<open>processCustomJson\<close> hands it over, with the requester, the
  block number and the transaction id added. The two data fields are strings, as the
  request form produces them.
\<close>

record request =
  rq_requester :: string
  requested_username :: string
  delivery_method :: string
  blockNumber :: jsnum
  rq_transactionId :: string

text \<open>
  \<open>String.prototype.trim\<close> strips the white space and the line terminators of
  ECMAScript from both ends: TAB, LF, VT, FF, CR, SPACE, NO-BREAK SPACE, OGHAM SPACE MARK,
  the spaces U+2000 to U+200A, LINE and PARAGRAPH SEPARATOR, NARROW NO-BREAK SPACE,
  MEDIUM MATHEMATICAL SPACE, IDEOGRAPHIC SPACE and the byte-order mark. All of them are
  single code units.
\<close>

definition is_space :: "nat \<Rightarrow> bool" where
  "is_space c =
     (c \<in> set [0x09, 0x0A, 0x0B, 0x0C, 0x0D, 0x20, 0xA0, 0x1680, 0x2028, 0x2029, 0x202F,
               0x205F, 0x3000, 0xFEFF]
      \<or> (0x2000 \<le> c \<and> c \<le> 0x200A))"

definition js_trim :: "ustring \<Rightarrow> ustring" where
  "js_trim s = rev (dropWhile is_space (rev (dropWhile is_space s)))"

text \<open>A configuration value that is \<open>undefined\<close> or the empty string is falsy.\<close>

definition unset :: "string option \<Rightarrow> bool" where
  "unset v = (case v of None \<Rightarrow> True | Some s \<Rightarrow> s = [])"

text \<open>The email branch of step 3: both results start as \<open>{ success: false }\<close>.\<close>

definition deliverEmail ::
  "monitor \<Rightarrow> env \<Rightarrow> string \<Rightarrow> ustring option \<Rightarrow> account_data \<Rightarrow> world
     \<Rightarrow> delivery_result \<times> world" where
  "deliverEmail m e deliveryMethod requesterEmail accountData w =
     (if deliveryMethod = ''email'' \<or> deliveryMethod = ''both'' then
        (case requesterEmail of
           None \<Rightarrow> (\<lparr>success = False, error = Some ''No registered email''\<rparr>, w)
         | Some addr \<Rightarrow>
             if js_trim addr \<noteq> []
             then sendAccountCredentials (emailConfigured m) (mail_reply e) addr accountData w
             else (\<lparr>success = False, error = Some ''No registered email''\<rparr>, w))
      else (\<lparr>success = False, error = None\<rparr>, w))"

text \<open>The memo branch of step 3.\<close>

definition deliverMemo ::
  "monitor \<Rightarrow> env \<Rightarrow> string \<Rightarrow> string \<Rightarrow> account_data \<Rightarrow> world \<Rightarrow> delivery_result \<times> world" where
  "deliverMemo m e deliveryMethod recipient accountData w =
     (if deliveryMethod = ''hive_memo'' \<or> deliveryMethod = ''both'' then
        (let canSend = canSendMemo (balance_reply e) in
         if \<not> canSend
         then (\<lparr>success = False, error = Some ''Insufficient HBD for memo transfer''\<rparr>, w)
         else if unset (creatingMemoKey m)
         then (\<lparr>success = False, error = Some ''Missing faucet memo key''\<rparr>, w)
         else sendAccountMemo m e recipient accountData w)
      else (\<lparr>success = False, error = None\<rparr>, w))"

definition overallSuccess :: "string \<Rightarrow> delivery_result \<Rightarrow> delivery_result \<Rightarrow> bool" where
  "overallSuccess deliveryMethod emailResult memoResult =
     (if deliveryMethod = ''both''
      then success emailResult \<and> success memoResult
      else success emailResult \<or> success memoResult)"

text \<open>
  How a request ends: rejected at authorization (with the reason), account creation
  failed (with the error), delivery failed or succeeded (with both channel results and,
  on success, what \<open>useToken\<close> returned), or an exception left the function.
\<close>

datatype request_outcome =
    Rejected "string option"
  | CreationFailed "string option"
  | DeliveryFailed delivery_result delivery_result
  | Fulfilled bool delivery_result delivery_result
  | Aborted js_error

definition processAccountRequest ::
  "monitor \<Rightarrow> env \<Rightarrow> request \<Rightarrow> world \<Rightarrow> request_outcome \<times> world" where
  "processAccountRequest m e request w =
     (let authCheck = checkAuthorization (users_file w) (rq_requester request) in
      if \<not> authorized authCheck then (Rejected (reason authCheck), w)
      else
        let masterPw = new_password e;
            keys = derive_keys e (requested_username request) masterPw;
            (accountCreationResult, w1) =
               createHiveAccount e (requested_username request) keys
                 (creatingAccount m) (creatingActiveKey m) w
        in
        if \<not> success accountCreationResult
        then (CreationFailed (creation_error accountCreationResult), w1)
        else
          let accountData =
                \<lparr>username = requested_username request, masterPassword = masterPw,
                 ownerKey = key_owner keys, activeKey = key_active keys,
                 postingKey = key_posting keys, memoKey = key_memo keys,
                 transactionId = creation_tx accountCreationResult,
                 requester = rq_requester request\<rparr>
          in
          case addPending (add_write e)
                 \<lparr>username = username accountData,
                  masterPassword = masterPassword accountData,
                  ownerKey = ownerKey accountData, activeKey = activeKey accountData,
                  postingKey = postingKey accountData, memoKey = memoKey accountData,
                  transactionId = transactionId accountData,
                  requester = requester accountData,
                  pending_created_at = clock e\<rparr> w1 of
            Inl err \<Rightarrow> (Aborted err, w1)
          | Inr w2 \<Rightarrow>
              let deliveryMethod = delivery_method request;
                  requesterEmail =
                    (case user_info authCheck of
                       None \<Rightarrow> None
                     | Some u \<Rightarrow> (case email u of
                                    None \<Rightarrow> None
                                  | Some a \<Rightarrow> if a = [] then None else Some a));
                  (emailResult, w3) = deliverEmail m e deliveryMethod requesterEmail accountData w2;
                  (memoResult, w4) =
                     deliverMemo m e deliveryMethod (rq_requester request) accountData w3
              in
              if overallSuccess deliveryMethod emailResult memoResult then
                (case useToken (token_write e) (clock e) (rq_requester request)
                        (users_file w4) of
                   Inl err \<Rightarrow> (Aborted err, w4)
                 | Inr (tokenUsed, f') \<Rightarrow>
                     let w5 = w4\<lparr>users_file := f'\<rparr> in
                     (case removePending (remove_write e) (username accountData) w5 of
                        Inl err \<Rightarrow> (Aborted err, w5)
                      | Inr w6 \<Rightarrow> (Fulfilled tokenUsed emailResult memoResult, w6)))
              else (DeliveryFailed emailResult memoResult, w4))"

section \<open>Block pump\<close>

record custom_json =
  op_id :: string
  json :: string
  required_posting_auths :: "string list"
  required_auths :: "string list"

datatype op_body = CustomJsonBody custom_json | OtherBody

text \<open>
  An operation is the pair of its name and its body. A block from the node may lack its
  \<open>transactions\<close>, and a transaction its \<open>operations\<close>.
\<close>

record transaction =
  transaction_id :: string
  operations :: "(string \<times> op_body) list option"

record block =
  transactions :: "transaction list option"

text \<open>\<open>required_posting_auths[0] || required_auths[0]\<close>.\<close>

definition requester_of :: "custom_json \<Rightarrow> string option" where
  "requester_of cj =
     (let first = (\<lambda>xs. case xs of [] \<Rightarrow> None | x # rest \<Rightarrow> Some x)
      in case first (required_posting_auths cj) of
           None \<Rightarrow> first (required_auths cj)
         | Some a \<Rightarrow> if a = [] then first (required_auths cj) else Some a)"

text \<open>
  \<open>processCustomJson\<close>: the whole body is one \<open>try\<close> block, so nothing escapes. \<open>parse\<close>
  is \<open>JSON.parse\<close>; \<open>handle\<close> is what processing the accepted request does to the world,
  up to the point where it returns or throws.
\<close>

definition processCustomJson ::
  "(string \<Rightarrow> js_error + jsval) \<Rightarrow> (jsval \<Rightarrow> jsnum \<Rightarrow> string \<Rightarrow> string option \<Rightarrow> world \<Rightarrow> world)
     \<Rightarrow> op_body \<Rightarrow> jsnum \<Rightarrow> string \<Rightarrow> world \<Rightarrow> world" where
  "processCustomJson parse handle body blockNum txId w =
     (case body of
        OtherBody \<Rightarrow> w
      | CustomJsonBody cj \<Rightarrow>
          if op_id cj \<noteq> ''hive_account_faucet'' then w
          else case parse (json cj) of
            Inl err \<Rightarrow> w
          | Inr requestData \<Rightarrow>
              (case validateRequest requestData of
                 Inl err \<Rightarrow> w
               | Inr v \<Rightarrow>
                   if truthy v then handle requestData blockNum txId (requester_of cj) w
                   else w))"

text \<open>
  \<open>processBlock\<close>: every \<open>custom_json\<close> operation of every transaction, in order. Iterating
  over missing \<open>operations\<close> throws; what was done before stays done.
\<close>

fun process_operations ::
  "(op_body \<Rightarrow> jsnum \<Rightarrow> string \<Rightarrow> world \<Rightarrow> world) \<Rightarrow> (string \<times> op_body) list \<Rightarrow> jsnum \<Rightarrow> string
     \<Rightarrow> world \<Rightarrow> world" where
  "process_operations pcj [] blockNum txId w = w"
| "process_operations pcj (operation # rest) blockNum txId w =
     process_operations pcj rest blockNum txId
       (if fst operation = ''custom_json'' then pcj (snd operation) blockNum txId w else w)"

fun process_transactions ::
  "(op_body \<Rightarrow> jsnum \<Rightarrow> string \<Rightarrow> world \<Rightarrow> world) \<Rightarrow> transaction list \<Rightarrow> jsnum \<Rightarrow> world
     \<Rightarrow> js_error option \<times> world" where
  "process_transactions pcj [] blockNum w = (None, w)"
| "process_transactions pcj (t # rest) blockNum w =
     (case operations t of
        None \<Rightarrow> (Some TypeError, w)
      | Some ops \<Rightarrow>
          process_transactions pcj rest blockNum
            (process_operations pcj ops blockNum (transaction_id t) w))"

definition processBlock ::
  "(op_body \<Rightarrow> jsnum \<Rightarrow> string \<Rightarrow> world \<Rightarrow> world) \<Rightarrow> block \<Rightarrow> jsnum \<Rightarrow> world
     \<Rightarrow> js_error option \<times> world" where
  "processBlock pcj b blockNum w =
     (case transactions b of
        None \<Rightarrow> (None, w)
      | Some [] \<Rightarrow> (None, w)
      | Some txs \<Rightarrow> process_transactions pcj txs blockNum w)"

text \<open>What \<open>client.database.getBlock\<close> does: it throws, or returns \<open>null\<close>, or a block.\<close>

datatype fetched = FetchFailed js_error | NoBlockYet | Fetched block

text \<open>
  What the outside does during one iteration of the loop: the answer of the node for a
  height, and the outcome of the write and of the rename of \<open>saveLastBlock\<close>.
\<close>

record iteration_env =
  getBlock :: "jsnum \<Rightarrow> fetched"
  cursor_write :: write_outcome
  cursor_rename :: bool
  iteration_clock :: string

text \<open>The loop's state, with the heights it asked for and the pauses it made.\<close>

datatype pump_event = GetBlock jsnum | Sleep nat

record pump =
  mon :: monitor
  wld :: world
  events :: "pump_event list"

text \<open>
  One pass through the body of \<open>while (this.isRunning)\<close> in \<open>streamBlocks\<close>. An
  exception of \<open>processBlock\<close> is caught like one of \<open>getBlock\<close>; \<open>saveLastBlock\<close> raises
  none.
\<close>

definition stream_iteration ::
  "(op_body \<Rightarrow> jsnum \<Rightarrow> string \<Rightarrow> world \<Rightarrow> world) \<Rightarrow> iteration_env \<Rightarrow> pump \<Rightarrow> pump" where
  "stream_iteration pcj ie p =
     (let nextBlock = js_add (lastProcessedBlock (mon p)) (Fin (dbl 1));
          p1 = p\<lparr>events := events p @ [GetBlock nextBlock]\<rparr>
      in case getBlock ie nextBlock of
           FetchFailed err \<Rightarrow> p1\<lparr>events := events p1 @ [Sleep 5000]\<rparr>
         | NoBlockYet \<Rightarrow> p1\<lparr>events := events p1 @ [Sleep 3000]\<rparr>
         | Fetched b \<Rightarrow>
             (case processBlock pcj b nextBlock (wld p1) of
                (Some err, w') \<Rightarrow> p1\<lparr>wld := w', events := events p1 @ [Sleep 5000]\<rparr>
              | (None, w') \<Rightarrow>
                  let m1 = (mon p1)\<lparr>lastProcessedBlock := nextBlock\<rparr> in
                  if js_rem_zero nextBlock (blockSaveInterval m1)
                  then (let (m2, w2) = saveLastBlock False (cursor_write ie) (cursor_rename ie)
                                         (iteration_clock ie) (m1, w')
                        in p1\<lparr>mon := m2, wld := w2\<rparr>)
                  else p1\<lparr>mon := m1, wld := w'\<rparr>))"

text \<open>
  The loop, driven by what the outside does in each iteration; it goes on for as long
  as the outside is observed and \<open>isRunning\<close> holds.
\<close>

fun streamBlocks ::
  "(op_body \<Rightarrow> jsnum \<Rightarrow> string \<Rightarrow> world \<Rightarrow> world) \<Rightarrow> iteration_env list \<Rightarrow> pump \<Rightarrow> pump" where
  "streamBlocks pcj [] p = p"
| "streamBlocks pcj (ie # rest) p =
     (if isRunning (mon p) then streamBlocks pcj rest (stream_iteration pcj ie p) else p)"

text \<open>\<open>stop\<close>: force-save the height, then clear the flag.\<close>

definition stop :: "write_outcome \<Rightarrow> bool \<Rightarrow> string \<Rightarrow> pump \<Rightarrow> pump" where
  "stop wo rename_ok t p =
     (let (m, w) = saveLastBlock True wo rename_ok t (mon p, wld p)
      in p\<lparr>mon := m\<lparr>isRunning := False\<rparr>, wld := w\<rparr>)"

text \<open>
  A block has been processed in full when \<open>processCustomJson\<close> has been applied to every
  \<open>custom_json\<close> operation of every transaction, in the order of the block.
  \<open>block_operations\<close> lists the operations with the id of their transaction, and
  \<open>apply_operation\<close> is the body of the inner loop.
\<close>

definition block_operations :: "block \<Rightarrow> (string \<times> string \<times> op_body) list" where
  "block_operations b =
     (case transactions b of
        None \<Rightarrow> []
      | Some txs \<Rightarrow>
          concat (map (\<lambda>t. case operations t of
                              None \<Rightarrow> []
                            | Some ops \<Rightarrow> map (Pair (transaction_id t)) ops) txs))"

definition apply_operation ::
  "(op_body \<Rightarrow> jsnum \<Rightarrow> string \<Rightarrow> world \<Rightarrow> world) \<Rightarrow> jsnum \<Rightarrow> string \<times> string \<times> op_body
     \<Rightarrow> world \<Rightarrow> world" where
  "apply_operation pcj blockNum op w =
     (if fst (snd op) = ''custom_json'' then pcj (snd (snd op)) blockNum (fst op) w else w)"

text \<open>
  The first world is the second but for what \<open>saveLastBlock\<close> may have done: the two
  cursor files, and its calls at the end of the log.
\<close>

definition apart_from_cursor :: "world \<Rightarrow> world \<Rightarrow> bool" where
  "apart_from_cursor w' w \<longleftrightarrow>
     users_file w' = users_file w \<and> recovery_file w' = recovery_file w
   \<and> chain_calls w' = chain_calls w \<and> mails w' = mails w
   \<and> take (length (fs_calls w)) (fs_calls w') = fs_calls w
   \<and> set (drop (length (fs_calls w)) (fs_calls w'))
       \<subseteq> {WriteFileSync LastBlockTmp, RenameSync LastBlockTmp LastBlockFile}"

text \<open>
  Examples: a faucet with no memo key and no mail transport; an outside in which the
  name is free, the creation goes through and every write succeeds; a request of
  \<open>alice\<close> for \<open>newuser3\<close> by both channels.
\<close>

definition monitor0 :: monitor where
  "monitor0 = \<lparr>isRunning = True, lastProcessedBlock = Fin (dbl 100),
               blockSaveInterval = Fin (dbl 20),
               lastSavedBlock = None, creatingAccount = Some ''faucet'',
               creatingActiveKey = Some ''5Active'', creatingMemoKey = None,
               emailConfigured = False\<rparr>"

definition keys0 :: account_keys where
  "keys0 = \<lparr>key_owner = ''5Ko'', key_active = ''5Ka'', key_posting = ''5Kp'',
            key_memo = ''5Km'', pub_owner = ''STMo'', pub_active = ''STMa'',
            pub_posting = ''STMp'', pub_memo = ''STMm''\<rparr>"

definition env0 :: env where
  "env0 = \<lparr>clock = ''2025-01-02T00:00:00.000Z'', new_password = ''P5new'',
           derive_keys = (\<lambda>name pw. keys0), avail_reply = Inr [], key_error = None,
           create_reply = Inr ''T1'', add_write = WriteOk, mail_reply = Inr ''msg1'',
           balance_reply = Inr [\<lparr>memo_key = ''STMfaucet'', hbd_balance = 5000\<rparr>],
           recipient_reply = Inr [\<lparr>memo_key = ''STMalice'', hbd_balance = 0\<rparr>],
           memo_encode = (\<lambda>priv pub msg. Inr ''#9f3ab1''),
           transfer_reply = Inr (''T2'', 102), token_write = WriteOk,
           remove_write = WriteOk\<rparr>"

definition request0 :: request where
  "request0 = \<lparr>rq_requester = ''alice'', requested_username = ''newuser3'',
               delivery_method = ''both'', blockNumber = Fin (dbl 101),
               rq_transactionId = ''R1''\<rparr>"

definition account0 :: account_data where
  "account0 = \<lparr>username = ''newuser3'', masterPassword = ''P5new'', ownerKey = ''5Ko'',
               activeKey = ''5Ka'', postingKey = ''5Kp'', memoKey = ''5Km'',
               transactionId = Some ''T1'', requester = ''alice''\<rparr>"


text \<open>
  Examples for the loop: a pump at height 100; a node that has no block yet; a node
  that answers with an empty block; a node whose block has a transaction without
  operations after one with a request; and a node whose block holds a vote and the
  request of \<open>alice\<close>. The handler of the examples serves an accepted request with the
  faucet and the outside of the examples.
\<close>

definition pump0 :: pump where
  "pump0 = \<lparr>mon = monitor0, wld = world0, events = []\<rparr>"

definition no_block_yet :: iteration_env where
  "no_block_yet = \<lparr>getBlock = (\<lambda>height. NoBlockYet), cursor_write = WriteOk,
                   cursor_rename = True, iteration_clock = ''2025-01-02T00:00:03.000Z''\<rparr>"

definition empty_block :: iteration_env where
  "empty_block = \<lparr>getBlock = (\<lambda>height. Fetched \<lparr>transactions = Some []\<rparr>),
                  cursor_write = WriteOk, cursor_rename = True,
                  iteration_clock = ''2025-01-02T00:00:06.000Z''\<rparr>"

definition request_op :: "string \<times> op_body" where
  "request_op =
     (''custom_json'',
      CustomJsonBody \<lparr>op_id = ''hive_account_faucet'', json = ''{...}'',
                      required_posting_auths = [''alice''], required_auths = []\<rparr>)"

definition request_block :: block where
  "request_block =
     \<lparr>transactions = Some [\<lparr>transaction_id = ''R1'',
                             operations = Some [(''vote'', OtherBody), request_op]\<rparr>]\<rparr>"

definition broken_block :: block where
  "broken_block =
     \<lparr>transactions = Some [\<lparr>transaction_id = ''R1'', operations = Some [request_op]\<rparr>,
                            \<lparr>transaction_id = ''X1'', operations = None\<rparr>]\<rparr>"

definition node_with :: "block \<Rightarrow> iteration_env" where
  "node_with b = \<lparr>getBlock = (\<lambda>height. Fetched b), cursor_write = WriteOk,
                  cursor_rename = True, iteration_clock = ''2025-01-02T00:00:09.000Z''\<rparr>"

definition text_of :: "jsval \<Rightarrow> string" where
  "text_of v = (case v of JStr s \<Rightarrow> s | _ \<Rightarrow> [])"

definition serve :: "jsval \<Rightarrow> jsnum \<Rightarrow> string \<Rightarrow> string option \<Rightarrow> world \<Rightarrow> world" where
  "serve requestData blockNum txId who w =
     snd (processAccountRequest monitor0 env0
            \<lparr>rq_requester = (case who of None \<Rightarrow> [] | Some a \<Rightarrow> a),
             requested_username =
               text_of (read_prop (read_prop requestData ''data'') ''requested_username''),
             delivery_method =
               text_of (read_prop (read_prop requestData ''data'') ''delivery_method''),
             blockNumber = blockNum, rq_transactionId = txId\<rparr> w)"

definition faucet :: "op_body \<Rightarrow> jsnum \<Rightarrow> string \<Rightarrow> world \<Rightarrow> world" where
  "faucet = processCustomJson (\<lambda>text. Inr (envelope (JStr ''newuser3'') (JStr ''both''))) serve"

text \<open>The world after the request of the examples has been served with no channel working.\<close>

definition world1 :: world where
  "world1 = world0\<lparr>recovery_file := PendingList [new_record],
                   fs_calls := [WriteFileSync RecoveryFile],
                   chain_calls := [CreateClaimedAccount (Some ''faucet'') ''newuser3''
                                     ''STMo'' ''STMa'' ''STMp'' ''STMm'']\<rparr>"
section \<open>Properties of the rounding\<close>

lemma ulp_pos [simp]: "0 < ulp n"
  by (induction n rule: ulp.induct) (subst ulp.simps, simp)

lemma ulp_small: "n < 2 ^ 53 \<Longrightarrow> ulp n = 1"
  by (subst ulp.simps) simp

lemma ulp_big: "\<not> n < 2 ^ 53 \<Longrightarrow> ulp n = 2 * ulp (n div 2)"
  by (subst ulp.simps) simp

lemma ulp_pow2: "\<exists>k. ulp n = 2 ^ k"
proof (induction n rule: ulp.induct)
  case (1 n)
  show ?case
  proof (cases "n < 2 ^ 53")
    case True
    then have "ulp n = 2 ^ 0" by (simp add: ulp_small)
    then show ?thesis by blast
  next
    case False
    with 1 obtain k where "ulp (n div 2) = 2 ^ k" by blast
    with False have "ulp n = 2 ^ Suc k" by (simp add: ulp_big)
    then show ?thesis by blast
  qed
qed

lemma ulp_div_less: "n div ulp n < 2 ^ 53"
proof (induction n rule: ulp.induct)
  case (1 n)
  show ?case
  proof (cases "n < 2 ^ 53")
    case True
    then show ?thesis by (simp add: ulp_small)
  next
    case False
    with 1 have "(n div 2) div ulp (n div 2) < 2 ^ 53" by simp
    with False show ?thesis by (simp add: ulp_big div_mult2_eq)
  qed
qed

lemma ulp_low: "1 < ulp n \<Longrightarrow> 2 ^ 52 \<le> n div ulp n"
proof (induction n rule: ulp.induct)
  case (1 n)
  show ?case
  proof (cases "n < 2 ^ 53")
    case True
    with 1(2) show ?thesis by (simp add: ulp_small)
  next
    case False
    show ?thesis
    proof (cases "1 < ulp (n div 2)")
      case True
      with 1(1) False have "2 ^ 52 \<le> (n div 2) div ulp (n div 2)" by simp
      with False show ?thesis by (simp add: ulp_big div_mult2_eq)
    next
      case f: False
      have "0 < ulp (n div 2)" by simp
      with f have "ulp (n div 2) = 1" by linarith
      with False show ?thesis by (simp add: ulp_big)
    qed
  qed
qed

lemma ulp_mono: "a \<le> b \<Longrightarrow> ulp a dvd ulp b"
proof (induction b arbitrary: a rule: ulp.induct)
  case (1 b)
  show ?case
  proof (cases "b < 2 ^ 53")
    case True
    with 1(2) have "a < 2 ^ 53" by simp
    with True show ?thesis by (simp add: ulp_small)
  next
    case False
    show ?thesis
    proof (cases "a < 2 ^ 53")
      case True
      then show ?thesis by (simp add: ulp_small)
    next
      case fa: False
      from 1(2) have "a div 2 \<le> b div 2" by (simp add: div_le_mono)
      with 1(1) False have "ulp (a div 2) dvd ulp (b div 2)" by simp
      with False fa show ?thesis by (simp add: ulp_big)
    qed
  qed
qed

lemma ulp_min: "n div 2 ^ k < 2 ^ 53 \<Longrightarrow> ulp n dvd 2 ^ k"
proof (induction n arbitrary: k rule: ulp.induct)
  case (1 n)
  show ?case
  proof (cases "n < 2 ^ 53")
    case True
    then show ?thesis by (simp add: ulp_small)
  next
    case False
    with 1(2) obtain j where k: "k = Suc j"
      by (cases k) auto
    with 1(2) have "(n div 2) div 2 ^ j < 2 ^ 53"
      by (simp add: div_mult2_eq)
    with 1(1) False have "ulp (n div 2) dvd 2 ^ j" by simp
    with False k show ?thesis by (simp add: ulp_big)
  qed
qed

lemma repr_by_pow2: "2 ^ k dvd n \<Longrightarrow> n div 2 ^ k < 2 ^ 53 \<Longrightarrow> ulp n dvd n"
  using ulp_min [of n k] by (blast intro: dvd_trans)

lemma round_nat_cases:
  "round_nat n = (n div ulp n) * ulp n \<or> round_nat n = (n div ulp n + 1) * ulp n"
  by (simp add: round_nat_def Let_def)

lemma round_nat_idem: "ulp n dvd n \<Longrightarrow> round_nat n = n"
  by (auto simp: round_nat_def Let_def)

lemma round_nat_exact: "n \<le> 2 ^ 53 \<Longrightarrow> round_nat n = n"
proof (cases "n < 2 ^ 53")
  case True
  then show ?thesis by (simp add: round_nat_idem ulp_small)
next
  case False
  moreover assume "n \<le> 2 ^ 53"
  ultimately have n: "n = 2 ^ 53" by simp
  then have "ulp n = 2" by (simp add: ulp.simps)
  with n show ?thesis by (simp add: round_nat_idem)
qed

text \<open>What \<open>round_nat\<close> returns is a double.\<close>

lemma round_nat_repr: "ulp (round_nat n) dvd round_nat n"
proof -
  obtain k where k: "ulp n = 2 ^ k" using ulp_pow2 by blast
  let ?m = "n div ulp n"
  have m: "?m < 2 ^ 53" by (rule ulp_div_less)
  have a: "ulp (?m * ulp n) dvd ?m * ulp n"
    by (rule repr_by_pow2 [of k]) (use k m in simp_all)
  have b: "ulp ((?m + 1) * ulp n) dvd (?m + 1) * ulp n"
  proof (cases "?m + 1 < 2 ^ 53")
    case True
    show ?thesis
      by (rule repr_by_pow2 [of k]) (use k True in simp_all)
  next
    case False
    from m False have e: "?m + 1 = 2 ^ 53" by linarith
    have "(?m + 1) * ulp n = 2 ^ 53 * ulp n"
      by (simp only: e)
    then have "(?m + 1) * ulp n = 2 ^ 52 * 2 ^ Suc k"
      by (simp add: k)
    moreover have "ulp (2 ^ 52 * 2 ^ Suc k) dvd 2 ^ 52 * 2 ^ Suc k"
      by (rule repr_by_pow2 [of "Suc k"]) simp_all
    ultimately show ?thesis by simp
  qed
  from round_nat_cases [of n] a b show ?thesis by auto
qed

lemma round_nat_floor: "(n div ulp n) * ulp n \<le> round_nat n"
  using round_nat_cases [of n] by auto

lemma round_nat_ceil: "round_nat n \<le> (if ulp n dvd n then n else (n div ulp n + 1) * ulp n)"
  using round_nat_cases [of n] by (auto simp: round_nat_idem)

text \<open>Rounding does not cross a double: it stays between the doubles around the number.\<close>

lemma round_lower:
  assumes R: "ulp R dvd R" and le: "R \<le> n"
  shows "R \<le> round_nat n"
proof -
  have d: "ulp R dvd ulp n" using le by (rule ulp_mono)
  have "R \<le> (n div ulp n) * ulp n"
  proof (cases "ulp R = ulp n")
    case True
    with R obtain c where c: "R = c * ulp n" by (auto simp: dvd_def mult.commute)
    from le c have "c * ulp n \<le> n" by simp
    from div_le_mono [OF this, of "ulp n"] have "c \<le> n div ulp n" by simp
    with c show ?thesis by simp
  next
    case False
    from d obtain c where c: "ulp n = ulp R * c" by (auto simp: dvd_def)
    have "0 < ulp n" by simp
    with c False have c2: "2 \<le> c" by (cases c; cases "c - 1") auto
    have "1 * 2 \<le> ulp R * c"
      by (rule mult_le_mono) (use c2 ulp_pos [of R] in \<open>simp_all add: Suc_leI\<close>)
    then have "1 < ulp n" by (simp add: c)
    then have low: "2 ^ 52 \<le> n div ulp n" by (rule ulp_low)
    from R have "R = (R div ulp R) * ulp R" by simp
    also have "\<dots> \<le> 2 ^ 53 * ulp R"
      using ulp_div_less [of R] by simp
    also have "\<dots> \<le> 2 ^ 52 * (ulp R * c)"
      using c2 by simp
    also have "\<dots> = 2 ^ 52 * ulp n" by (simp add: c)
    also have "\<dots> \<le> (n div ulp n) * ulp n" using low by simp
    finally show ?thesis .
  qed
  with round_nat_floor [of n] show ?thesis by linarith
qed

lemma round_upper:
  assumes R: "ulp R dvd R" and le: "n \<le> R"
  shows "round_nat n \<le> R"
proof (cases "ulp n dvd n")
  case True
  with le show ?thesis by (simp add: round_nat_idem)
next
  case False
  have "ulp n dvd ulp R" using le by (rule ulp_mono)
  with R have "ulp n dvd R" by (rule dvd_trans [rotated])
  then obtain c where c: "R = c * ulp n" by (auto simp: dvd_def mult.commute)
  have "n \<noteq> R" using False \<open>ulp n dvd R\<close> by auto
  with le have "n < c * ulp n" using c by simp
  then have "n div ulp n < c"
    by (simp add: div_less_iff_less_mult)
  then have "n div ulp n + 1 \<le> c" by simp
  then have "(n div ulp n + 1) * ulp n \<le> c * ulp n"
    by (rule mult_le_mono1)
  with round_nat_ceil [of n] False c show ?thesis by simp
qed

text \<open>Adding one to a double gives that double or, below \<open>2^54\<close>, the next one.\<close>

lemma round_nat_step:
  assumes R: "ulp x dvd x" and b: "x < 2 ^ 1024"
  shows "x \<le> round_nat (x + 1)" and "round_nat (x + 1) < 2 ^ 1024"
proof -
  show "x \<le> round_nat (x + 1)"
    by (rule round_lower [OF R]) simp
  show "round_nat (x + 1) < 2 ^ 1024"
  proof (cases "x + 1 \<le> 2 ^ 53")
    case True
    then have "round_nat (x + 1) = x + 1" by (rule round_nat_exact)
    with True show ?thesis by simp
  next
    case False
    then have big: "\<not> x < 2 ^ 53" by simp
    let ?q = "ulp x"
    obtain k where k: "?q = 2 ^ k" using ulp_pow2 by blast
    from big have q2: "?q = 2 * ulp (x div 2)" by (rule ulp_big)
    with ulp_pos [of "x div 2"] have q1: "1 < ?q" by linarith
    from R obtain m where m: "x = m * ?q" by (auto simp: dvd_def mult.commute)
    have mdiv: "x div ?q = m" using m q1
      by (metis nonzero_mult_div_cancel_right less_numeral_extra(3) ulp_pos)
    have d1: "(x + 1) div ?q = m"
      using m q1
      by (metis mdiv div_mult_self3 add.commute div_less add.right_neutral
            less_numeral_extra(3) ulp_pos mult.commute)
    have "m < 2 ^ 53" using ulp_div_less [of x] mdiv by simp
    with d1 k have "ulp (x + 1) dvd ?q" using ulp_min [of "x + 1" k] by simp
    moreover have "?q dvd ulp (x + 1)" by (rule ulp_mono) simp
    ultimately have e: "ulp (x + 1) = ?q" by (rule dvd_antisym)
    have "round_nat (x + 1) \<le> (m + 1) * ?q"
      using round_nat_cases [of "x + 1"] e d1 by auto
    also have "\<dots> = x + ?q" using m by simp
    finally have le: "round_nat (x + 1) \<le> x + ?q" .
    have "round_nat (x + 1) \<le> x \<or> ?q = 2"
    proof (cases "?q = 2")
      case True
      then show ?thesis by simp
    next
      case False
      with q1 have q3: "2 < ?q" by simp
      have r1: "(x + 1) mod ?q = 1"
        using m q1 by (metis mod_mult_self3 add.commute mod_less mult.commute)
      have "round_nat (x + 1) = m * ?q"
        unfolding round_nat_def Let_def e d1 r1 using q3 by simp
      with m show ?thesis by simp
    qed
    then show ?thesis
    proof
      assume "round_nat (x + 1) \<le> x"
      with b show ?thesis by simp
    next
      assume q: "?q = 2"
      with m \<open>m < 2 ^ 53\<close> have "x < 2 ^ 54" by simp
      with le q have "round_nat (x + 1) < 2 ^ 54 + 2" by simp
      then show ?thesis by simp
    qed
  qed
qed

text \<open>The same for either sign, and for the doubles as a type.\<close>

lemma dval_dbl: "is_double r \<Longrightarrow> dval (dbl r) = r"
  by (simp add: dbl_inverse)

lemma is_double_dval [simp]: "is_double (dval d)"
  using dval [of d] by simp

lemma dval_bound: "\<bar>dval d\<bar> < 2 ^ 1024"
  using is_double_dval [of d] by (simp add: is_double_def)

lemma is_double_small: "\<bar>z\<bar> < 2 ^ 53 \<Longrightarrow> is_double z"
  by (simp add: is_double_def ulp_small)

lemma js_round_nonneg: "0 \<le> z \<Longrightarrow> 0 \<le> js_round z"
  by (simp add: js_round_def)

lemma js_round_nonpos: "z \<le> 0 \<Longrightarrow> js_round z \<le> 0"
  by (cases "z = 0") (auto simp: js_round_def round_nat_exact)

lemma js_round_abs: "\<bar>js_round z\<bar> = int (round_nat (nat \<bar>z\<bar>))"
  by (auto simp: js_round_def round_nat_exact)

lemma js_round_exact: "\<bar>z\<bar> \<le> 2 ^ 53 \<Longrightarrow> js_round z = z"
proof -
  assume a: "\<bar>z\<bar> \<le> 2 ^ 53"
  then have "nat \<bar>z\<bar> \<le> 2 ^ 53" by simp
  then have "round_nat (nat \<bar>z\<bar>) = nat \<bar>z\<bar>" by (rule round_nat_exact)
  then show ?thesis by (auto simp: js_round_def)
qed

lemma js_round_double: "\<bar>js_round z\<bar> < 2 ^ 1024 \<Longrightarrow> is_double (js_round z)"
  unfolding is_double_def js_round_abs
  using round_nat_repr [of "nat \<bar>z\<bar>"] by simp

lemma double_of_cases:
  obtains (fin) "double_of z = Fin (dbl (js_round z))" "dval (dbl (js_round z)) = js_round z"
        "\<bar>js_round z\<bar> < 2 ^ 1024"
      | (pos) "double_of z = PosInf" "2 ^ 1024 \<le> js_round z"
      | (neg) "double_of z = NegInf" "js_round z \<le> - (2 ^ 1024)"
proof (cases "2 ^ 1024 \<le> js_round z")
  case True
  then show ?thesis using pos by (simp add: double_of_def)
next
  case np: False
  show ?thesis
  proof (cases "js_round z \<le> - (2 ^ 1024)")
    case True
    with np show ?thesis using neg by (simp add: double_of_def)
  next
    case False
    with np have b: "\<bar>js_round z\<bar> < 2 ^ 1024" by simp
    then have "is_double (js_round z)" by (rule js_round_double)
    then have "dval (dbl (js_round z)) = js_round z" by (rule dval_dbl)
    moreover from np False have "double_of z = Fin (dbl (js_round z))"
      by (simp add: double_of_def)
    ultimately show ?thesis using fin b by blast
  qed
qed

section \<open>Properties of the arithmetic\<close>

lemma dval_zero [simp]: "dval (dbl 0) = 0"
  by (simp add: dval_dbl is_double_small)

lemma dval_one [simp]: "dval (dbl 1) = 1"
  by (simp add: dval_dbl is_double_small)

lemma dval_nat_double: "0 \<le> dval d \<Longrightarrow> ulp (nat (dval d)) dvd nat (dval d)"
  using is_double_dval [of d] by (simp add: is_double_def)

lemma dval_neg_double: "dval d \<le> 0 \<Longrightarrow> ulp (nat (- dval d)) dvd nat (- dval d)"
  using is_double_dval [of d] by (simp add: is_double_def)

lemma abs_less_cases:
  fixes x B :: int
  shows "\<bar>x\<bar> < B \<Longrightarrow> \<not> B \<le> x" and "\<bar>x\<bar> < B \<Longrightarrow> \<not> x \<le> - B"
  by linarith+

lemma below_bound:
  fixes r :: nat and z B :: int
  assumes "r \<le> nat z" and "0 \<le> z" and "\<bar>z\<bar> < B"
  shows "\<bar>int r\<bar> < B"
  using assms by linarith

lemma above_neg_bound:
  fixes r a :: nat and z B :: int
  assumes "r \<le> nat (- z)" and "z \<le> 0" and "\<bar>z\<bar> < B"
  shows "z \<le> - int r" and "\<bar>- int r\<bar> < B"
  using assms by linarith+

lemma double_of_fin:
  assumes "\<bar>js_round z\<bar> < 2 ^ 1024"
  shows "double_of z = Fin (dbl (js_round z))" and "dval (dbl (js_round z)) = js_round z"
proof -
  note n = abs_less_cases [OF assms]
  show "double_of z = Fin (dbl (js_round z))"
    by (cases z rule: double_of_cases) (use n in blast)+
  show "dval (dbl (js_round z)) = js_round z"
    by (cases z rule: double_of_cases) (use n in blast)+
qed

text \<open>\<open>x + 1\<close> is a finite double and not below \<open>x\<close>.\<close>

lemma add_one_grows: "\<exists>y. js_add (Fin d) (Fin (dbl 1)) = Fin y \<and> dval d \<le> dval y"
proof -
  let ?z = "dval d + 1"
  have r: "dval d \<le> js_round ?z \<and> \<bar>js_round ?z\<bar> < 2 ^ 1024"
  proof (cases "0 \<le> dval d")
    case True
    let ?x = "nat (dval d)"
    have x: "ulp ?x dvd ?x" using True by (rule dval_nat_double)
    have "int ?x < 2 ^ 1024" using dval_bound [of d] True by linarith
    then have b: "?x < 2 ^ 1024" by (metis of_nat_less_iff of_nat_numeral of_nat_power)
    have z: "js_round ?z = int (round_nat (?x + 1))"
      using True by (simp add: js_round_def nat_add_distrib)
    note s = round_nat_step [OF x b]
    from s have "dval d \<le> int (round_nat (?x + 1))" using True by linarith
    moreover from s have "int (round_nat (?x + 1)) < 2 ^ 1024"
      by (metis of_nat_less_iff of_nat_numeral of_nat_power)
    ultimately show ?thesis unfolding z by linarith
  next
    case False
    let ?a = "nat (- dval d)"
    from False have neg: "dval d \<le> 0" by simp
    have a: "ulp ?a dvd ?a" using neg by (rule dval_neg_double)
    have z: "js_round ?z = - int (round_nat (?a - 1))"
    proof (cases "dval d = - 1")
      case True
      then show ?thesis by (simp add: js_round_def round_nat_exact)
    next
      case n: False
      with False have "?z < 0" by simp
      moreover have "nat (- ?z) = ?a - 1" using False by simp
      ultimately show ?thesis by (simp add: js_round_def)
    qed
    have "round_nat (?a - 1) \<le> ?a"
      by (rule round_upper [OF a]) simp
    from above_neg_bound [OF this neg dval_bound] show ?thesis
      unfolding z by blast
  qed
  from double_of_fin [of ?z] r show ?thesis by simp
qed

text \<open>\<open>x - 1\<close> for a positive double is a finite double and not negative.\<close>

lemma sub_one_nonneg:
  assumes "0 < dval d"
  shows "\<exists>y. js_sub (Fin d) (Fin (dbl 1)) = Fin y \<and> 0 \<le> dval y"
proof -
  let ?z = "dval d - 1"
  let ?x = "nat (dval d)"
  from assms have p: "0 \<le> dval d" by simp
  have x: "ulp ?x dvd ?x" using p by (rule dval_nat_double)
  have z: "js_round ?z = int (round_nat (?x - 1))"
    using assms by (simp add: js_round_def nat_diff_distrib)
  have "round_nat (?x - 1) \<le> ?x"
    by (rule round_upper [OF x]) simp
  from below_bound [OF this p dval_bound]
  have r: "\<bar>js_round ?z\<bar> < 2 ^ 1024" unfolding z .
  have "0 \<le> js_round ?z" unfolding z by simp
  with double_of_fin [of ?z] r show ?thesis by simp
qed

text \<open>What is not negative in memory is not negative when read back from the file.\<close>

lemma double_of_nonneg:
  assumes "0 \<le> z"
  shows "js_le (Fin (dbl 0)) (to_number (json_num (double_of z)))"
proof (cases z rule: double_of_cases)
  case fin
  with js_round_nonneg [OF assms] show ?thesis
    by (simp add: json_num_def to_number_def)
next
  case pos
  then show ?thesis by (simp add: json_num_def to_number_def)
next
  case neg
  with js_round_nonneg [OF assms] show ?thesis by simp
qed

lemma json_nonneg:
  "js_le (Fin (dbl 0)) x \<Longrightarrow> js_le (Fin (dbl 0)) (to_number (json_num x))"
  by (cases x) (simp_all add: json_num_def to_number_def)

lemma add_nonneg:
  assumes "js_le (Fin (dbl 0)) (to_number x)" and "js_le (Fin (dbl 0)) n"
  shows "js_le (Fin (dbl 0)) (to_number (json_num (js_add (to_number x) n)))"
proof (cases n)
  case (Fin k)
  obtain v where v: "to_number x = Fin v" by (cases x) (simp_all add: to_number_def)
  with assms Fin have "0 \<le> dval v + dval k" by simp
  then show ?thesis using v Fin by (simp add: double_of_nonneg)
next
  case PosInf
  obtain v where v: "to_number x = Fin v" by (cases x) (simp_all add: to_number_def)
  with PosInf show ?thesis by (simp add: json_num_def to_number_def)
next
  case NegInf
  with assms show ?thesis by simp
next
  case NaN
  with assms show ?thesis by simp
qed

lemma sub_nonneg:
  assumes "js_le (to_number x) n"
  shows "js_le (Fin (dbl 0)) (to_number (json_num (js_sub n (to_number x))))"
proof -
  obtain v where v: "to_number x = Fin v" by (cases x) (simp_all add: to_number_def)
  show ?thesis
  proof (cases n)
    case (Fin k)
    with assms v have "0 \<le> dval k - dval v" by simp
    then show ?thesis using v Fin by (simp add: double_of_nonneg)
  next
    case PosInf
    with v show ?thesis by (simp add: json_num_def to_number_def)
  next
    case NegInf
    with assms v show ?thesis by simp
  next
    case NaN
    with assms v show ?thesis by simp
  qed
qed

text \<open>A sum or difference that is a safe integer has not been rounded.\<close>

lemma safe_double_of:
  assumes "safe (double_of z)"
  shows "double_of z = Fin (dbl z)" and "dval (dbl z) = z"
proof -
  have small: "\<bar>z\<bar> \<le> 2 ^ 53"
  proof (rule ccontr)
    assume "\<not> \<bar>z\<bar> \<le> 2 ^ 53"
    then have big: "2 ^ 53 \<le> nat \<bar>z\<bar>" by simp
    have "ulp (2 ^ 53) dvd (2 ^ 53 :: nat)" by (simp add: ulp.simps)
    from round_lower [OF this big] have "2 ^ 53 \<le> \<bar>js_round z\<bar>"
      by (simp add: js_round_abs)
    with assms show False
      by (cases z rule: double_of_cases) (simp_all add: safe_def)
  qed
  then have e: "js_round z = z" by (rule js_round_exact)
  from assms e show "double_of z = Fin (dbl z)"
    by (cases z rule: double_of_cases) (simp_all add: safe_def)
  from assms e show "dval (dbl z) = z"
    by (cases z rule: double_of_cases) (simp_all add: safe_def)
qed

text \<open>Integers up to \<open>2^53\<close> in magnitude are doubles, and arithmetic on them is exact.\<close>

lemma dval_small: "\<bar>z\<bar> < 2 ^ 53 \<Longrightarrow> dval (dbl z) = z"
  by (simp add: dval_dbl is_double_small)

lemma double_of_exact:
  assumes "\<bar>z\<bar> \<le> 2 ^ 53"
  shows "double_of z = Fin (dbl z)"
proof -
  have e: "js_round z = z" using assms by (rule js_round_exact)
  have "(2::int) ^ 53 < 2 ^ 1024" by simp
  with assms have "\<bar>z\<bar> < 2 ^ 1024" by linarith
  with double_of_fin(1) [of z] e show ?thesis by simp
qed

text \<open>Above \<open>2^53\<close> only every second integer is a double.\<close>

lemma dval_example:
  "dval (dbl 9007199254740992) = 9007199254740992"
  "dval (dbl 9007199254740996) = 9007199254740996"
  "dval (dbl 9007199254740998) = 9007199254740998"
  by (simp_all add: dval_dbl is_double_def ulp.simps)

lemma double_of_example:
  "double_of 9007199254740995 = Fin (dbl 9007199254740996)"
  "double_of 9007199254740997 = Fin (dbl 9007199254740996)"
  "double_of 9007199254740998 = Fin (dbl 9007199254740998)"
  by (simp_all add: double_of_def js_round_def round_nat_def ulp.simps Let_def)

lemma dbl_eq_small: "\<bar>x\<bar> < 2 ^ 53 \<Longrightarrow> \<bar>y\<bar> < 2 ^ 53 \<Longrightarrow> dbl x = dbl y \<longleftrightarrow> x = y"
  by (metis dval_small)

section \<open>Properties of the quota ledger\<close>

lemmas ledger_defs = useToken_def giveTokens_def setTokens_def addUser_def saveData_def
  file_after_def user_of_def lookup_user_def

lemma to_number_fin: "\<exists>v. to_number x = Fin v"
  by (cases x) (simp_all add: to_number_def)

lemma to_number_json [simp]: "to_number (json_num (Fin y)) = Fin y"
  by (simp add: to_number_def json_num_def)

lemma json_fin [simp]: "json_num (Fin y) = Some y"
  by (simp add: json_num_def)

lemma to_number_some [simp]: "to_number (Some y) = Fin y"
  by (simp add: to_number_def)

text \<open>What each mutation does to the record stored under a name.\<close>

lemma useToken_effect:
  "user_of (file_after (useToken wo now who f) f) name = user_of f name
   \<or> user_of (file_after (useToken wo now who f) f) name = None
   \<or> (\<exists>u. user_of f name = Some u
          \<and> \<not> js_le (to_number (tokens_remaining u)) (Fin (dbl 0))
          \<and> user_of (file_after (useToken wo now who f) f) name =
              Some (u\<lparr>tokens_used :=
                         json_num (js_add (to_number (tokens_used u)) (Fin (dbl 1))),
                       tokens_remaining :=
                         json_num (js_sub (to_number (tokens_remaining u)) (Fin (dbl 1))),
                       last_used := Some now\<rparr>))"
  by (auto simp: ledger_defs Let_def
           split: users_file.splits option.splits write_outcome.splits if_splits)

lemma giveTokens_effect:
  "user_of (file_after (giveTokens wo now who n f) f) name = user_of f name
   \<or> user_of (file_after (giveTokens wo now who n f) f) name = None
   \<or> (\<exists>u. user_of f name = Some u
          \<and> user_of (file_after (giveTokens wo now who n f) f) name =
              Some (u\<lparr>tokens_allocated := json_num (js_add (to_number (tokens_allocated u)) n),
                       tokens_remaining :=
                         json_num (js_add (to_number (tokens_remaining u)) n)\<rparr>))"
  by (auto simp: ledger_defs Let_def
           split: users_file.splits option.splits write_outcome.splits if_splits)

lemma setTokens_effect:
  "user_of (file_after (setTokens wo now who n f) f) name = user_of f name
   \<or> user_of (file_after (setTokens wo now who n f) f) name = None
   \<or> (\<exists>u. user_of f name = Some u \<and> name = who
          \<and> user_of (file_after (setTokens wo now who n f) f) name =
              Some (u\<lparr>tokens_allocated := json_num n,
                       tokens_remaining :=
                         json_num (js_sub n (to_number (tokens_used u)))\<rparr>))"
  by (auto simp: ledger_defs Let_def
           split: users_file.splits option.splits write_outcome.splits if_splits)

lemma addUser_effect:
  "user_of (file_after (addUser wo now who n ml nt f) f) name = user_of f name
   \<or> user_of (file_after (addUser wo now who n ml nt f) f) name = None
   \<or> (user_of f name = None
       \<and> user_of (file_after (addUser wo now who n ml nt f) f) name =
           Some \<lparr>tokens_allocated = json_num n, tokens_used = Some (dbl 0),
                 tokens_remaining = json_num n, email = ml, created_at = now,
                 last_used = None, is_active = True, user_notes = nt\<rparr>)"
  by (auto simp: ledger_defs Let_def
           split: users_file.splits option.splits write_outcome.splits if_splits)

lemma safe_add:
  assumes "safe (js_add (Fin a) n)"
  shows "\<exists>k y. n = Fin k \<and> js_add (Fin a) n = Fin y \<and> dval y = dval a + dval k"
proof (cases n)
  case (Fin k)
  with assms have "safe (double_of (dval a + dval k))" by simp
  from safe_double_of [OF this] Fin show ?thesis by simp
qed (use assms in \<open>simp_all add: safe_def\<close>)

lemma safe_sub:
  assumes "safe (js_sub n (Fin b))"
  shows "\<exists>k y. n = Fin k \<and> js_sub n (Fin b) = Fin y \<and> dval y = dval k - dval b"
proof (cases n)
  case (Fin k)
  with assms have "safe (double_of (dval k - dval b))" by simp
  from safe_double_of [OF this] Fin show ?thesis by simp
qed (use assms in \<open>simp_all add: safe_def\<close>)

lemma balanced_some:
  "balanced (Some u) \<longleftrightarrow>
     (\<exists>b c a. tokens_used u = Some b \<and> tokens_remaining u = Some c
        \<and> tokens_allocated u = Some a \<and> dval b + dval c = dval a)"
  by (auto simp: balanced_def split: option.splits)

lemma balanced_useToken:
  assumes "balanced (user_of f name)" and "use_safe (user_of f name)"
  shows "balanced (user_of (file_after (useToken wo now who f) f) name)"
proof -
  consider (same) "user_of (file_after (useToken wo now who f) f) name = user_of f name"
    | (none) "user_of (file_after (useToken wo now who f) f) name = None"
    | (upd) u where "user_of f name = Some u"
        "user_of (file_after (useToken wo now who f) f) name =
           Some (u\<lparr>tokens_used :=
                      json_num (js_add (to_number (tokens_used u)) (Fin (dbl 1))),
                    tokens_remaining :=
                      json_num (js_sub (to_number (tokens_remaining u)) (Fin (dbl 1))),
                    last_used := Some now\<rparr>)"
    using useToken_effect [of wo now who f name] by auto
  then show ?thesis
  proof cases
    case same
    with assms show ?thesis by simp
  next
    case none
    then show ?thesis by (simp add: balanced_def)
  next
    case upd
    from assms(1) upd(1) obtain b c a where
      r: "tokens_used u = Some b" "tokens_remaining u = Some c" "tokens_allocated u = Some a"
         "dval b + dval c = dval a"
      by (auto simp: balanced_some)
    from assms(2) upd(1) r have s: "safe (js_add (Fin b) (Fin (dbl 1)))"
      "safe (js_sub (Fin c) (Fin (dbl 1)))"
      by (simp_all add: use_safe_def)
    from safe_add [OF s(1)] obtain y where
      y: "js_add (Fin b) (Fin (dbl 1)) = Fin y" "dval y = dval b + 1" by auto
    from safe_sub [OF s(2)] obtain y' where
      y': "js_sub (Fin c) (Fin (dbl 1)) = Fin y'" "dval y' = dval c - 1" by auto
    show ?thesis
      unfolding upd(2) using r y y' by (simp add: balanced_some)
  qed
qed

lemma balanced_giveTokens:
  assumes "balanced (user_of f name)" and "give_safe (user_of f name) n"
  shows "balanced (user_of (file_after (giveTokens wo now who n f) f) name)"
proof -
  consider (same) "user_of (file_after (giveTokens wo now who n f) f) name = user_of f name"
    | (none) "user_of (file_after (giveTokens wo now who n f) f) name = None"
    | (upd) u where "user_of f name = Some u"
        "user_of (file_after (giveTokens wo now who n f) f) name =
           Some (u\<lparr>tokens_allocated := json_num (js_add (to_number (tokens_allocated u)) n),
                    tokens_remaining :=
                      json_num (js_add (to_number (tokens_remaining u)) n)\<rparr>)"
    using giveTokens_effect [of wo now who n f name] by auto
  then show ?thesis
  proof cases
    case same
    with assms show ?thesis by simp
  next
    case none
    then show ?thesis by (simp add: balanced_def)
  next
    case upd
    from assms(1) upd(1) obtain b c a where
      r: "tokens_used u = Some b" "tokens_remaining u = Some c" "tokens_allocated u = Some a"
         "dval b + dval c = dval a"
      by (auto simp: balanced_some)
    from assms(2) upd(1) r have s: "safe (js_add (Fin a) n)" "safe (js_add (Fin c) n)"
      by (simp_all add: give_safe_def)
    from safe_add [OF s(1)] obtain k y where
      y: "n = Fin k" "js_add (Fin a) n = Fin y" "dval y = dval a + dval k" by auto
    from safe_add [OF s(2)] y(1) obtain y' where
      y': "js_add (Fin c) n = Fin y'" "dval y' = dval c + dval k" by auto
    show ?thesis
      unfolding upd(2) using r y y' by (simp add: balanced_some)
  qed
qed

lemma balanced_setTokens:
  assumes "balanced (user_of f name)" and "set_safe (user_of f name) n"
  shows "balanced (user_of (file_after (setTokens wo now who n f) f) name)"
proof -
  consider (same) "user_of (file_after (setTokens wo now who n f) f) name = user_of f name"
    | (none) "user_of (file_after (setTokens wo now who n f) f) name = None"
    | (upd) u where "user_of f name = Some u"
        "user_of (file_after (setTokens wo now who n f) f) name =
           Some (u\<lparr>tokens_allocated := json_num n,
                    tokens_remaining := json_num (js_sub n (to_number (tokens_used u)))\<rparr>)"
    using setTokens_effect [of wo now who n f name] by auto
  then show ?thesis
  proof cases
    case same
    with assms show ?thesis by simp
  next
    case none
    then show ?thesis by (simp add: balanced_def)
  next
    case upd
    from assms(1) upd(1) obtain b c a where
      r: "tokens_used u = Some b" "tokens_remaining u = Some c" "tokens_allocated u = Some a"
         "dval b + dval c = dval a"
      by (auto simp: balanced_some)
    from assms(2) upd(1) r have s: "safe (js_sub n (Fin b))"
      by (simp add: set_safe_def)
    from safe_sub [OF s] obtain k y where
      y: "n = Fin k" "js_sub n (Fin b) = Fin y" "dval y = dval k - dval b" by auto
    show ?thesis
      unfolding upd(2) using r y by (simp add: balanced_some)
  qed
qed

lemma balanced_addUser:
  assumes "balanced (user_of f name)" and "safe n"
  shows "balanced (user_of (file_after (addUser wo now who n ml nt f) f) name)"
proof -
  from assms(2) obtain k where k: "n = Fin k" by (cases n) (simp_all add: safe_def)
  from addUser_effect [of wo now who n ml nt f name] assms(1) show ?thesis
    by (auto simp: balanced_some k) (simp add: balanced_def)
qed

lemma used_grows_useToken:
  "used_grows (user_of f name) (user_of (file_after (useToken wo now who f) f) name)"
proof -
  have refl: "js_le (to_number x) (to_number x)" for x
    using to_number_fin [of x] by auto
  have grow: "js_le (to_number x) (to_number (json_num (js_add (to_number x) (Fin (dbl 1)))))"
    for x
  proof -
    obtain v where v: "to_number x = Fin v" using to_number_fin by blast
    from add_one_grows [of v] v show ?thesis by auto
  qed
  from useToken_effect [of wo now who f name] show ?thesis
    by (auto simp: used_grows_def refl grow split: option.splits)
qed

lemma used_grows_others:
  "used_grows (user_of f name) (user_of (file_after (giveTokens wo now who n f) f) name)"
  "used_grows (user_of f name) (user_of (file_after (setTokens wo now who n f) f) name)"
  "used_grows (user_of f name) (user_of (file_after (addUser wo now who n ml nt f) f) name)"
proof -
  have refl: "js_le (to_number x) (to_number x)" for x
    using to_number_fin [of x] by auto
  from giveTokens_effect [of wo now who n f name]
  show "used_grows (user_of f name) (user_of (file_after (giveTokens wo now who n f) f) name)"
    by (auto simp: used_grows_def refl split: option.splits)
  from setTokens_effect [of wo now who n f name]
  show "used_grows (user_of f name) (user_of (file_after (setTokens wo now who n f) f) name)"
    by (auto simp: used_grows_def refl split: option.splits)
  from addUser_effect [of wo now who n ml nt f name]
  show "used_grows (user_of f name)
          (user_of (file_after (addUser wo now who n ml nt f) f) name)"
    by (auto simp: used_grows_def refl split: option.splits)
qed

lemma nonneg_useToken:
  assumes "nonneg (user_of f name)"
  shows "nonneg (user_of (file_after (useToken wo now who f) f) name)"
proof -
  consider (same) "user_of (file_after (useToken wo now who f) f) name = user_of f name"
    | (none) "user_of (file_after (useToken wo now who f) f) name = None"
    | (upd) u where "user_of f name = Some u"
        "\<not> js_le (to_number (tokens_remaining u)) (Fin (dbl 0))"
        "user_of (file_after (useToken wo now who f) f) name =
           Some (u\<lparr>tokens_used :=
                      json_num (js_add (to_number (tokens_used u)) (Fin (dbl 1))),
                    tokens_remaining :=
                      json_num (js_sub (to_number (tokens_remaining u)) (Fin (dbl 1))),
                    last_used := Some now\<rparr>)"
    using useToken_effect [of wo now who f name] by auto
  then show ?thesis
  proof cases
    case same
    with assms show ?thesis by simp
  next
    case none
    then show ?thesis by (simp add: nonneg_def)
  next
    case upd
    obtain b where b: "to_number (tokens_used u) = Fin b" using to_number_fin by blast
    obtain c where c: "to_number (tokens_remaining u) = Fin c" using to_number_fin by blast
    from assms upd(1) b have b0: "0 \<le> dval b" by (simp add: nonneg_def)
    from upd(2) c have c0: "0 < dval c" by simp
    from add_one_grows [of b] obtain y where
      y: "js_add (Fin b) (Fin (dbl 1)) = Fin y" "dval b \<le> dval y" by auto
    from sub_one_nonneg [OF c0] obtain y' where
      y': "js_sub (Fin c) (Fin (dbl 1)) = Fin y'" "0 \<le> dval y'" by auto
    show ?thesis
      unfolding upd(3) using b c b0 y y' by (simp add: nonneg_def)
  qed
qed

lemma nonneg_giveTokens:
  assumes "nonneg (user_of f name)" and "js_le (Fin (dbl 0)) n"
  shows "nonneg (user_of (file_after (giveTokens wo now who n f) f) name)"
  using giveTokens_effect [of wo now who n f name] assms
  by (auto simp: nonneg_def add_nonneg)

lemma nonneg_setTokens:
  assumes "nonneg (user_of f name)" and "used_at_most (user_of f who) n"
  shows "nonneg (user_of (file_after (setTokens wo now who n f) f) name)"
  using setTokens_effect [of wo now who n f name] assms
  by (auto simp: nonneg_def used_at_most_def sub_nonneg)

lemma nonneg_addUser:
  assumes "nonneg (user_of f name)" and "js_le (Fin (dbl 0)) n"
  shows "nonneg (user_of (file_after (addUser wo now who n ml nt f) f) name)"
  using addUser_effect [of wo now who n ml nt f name] assms
  by (auto simp: nonneg_def json_nonneg)

lemmas ledger_example = ledger_defs ledger0_def alice_def double_of_exact dval_small

text \<open>
  C7, as stated, fails: the counts are IEEE doubles, and a sum above \<open>2^53\<close> is rounded.
  With 2 of 5 tokens used, giving \<open>2^53 = 9007199254740992\<close> tokens (which the
  administration command accepts) stores \<open>9007199254740996\<close> both as
  \<open>tokens_allocated\<close>, the rounding of \<open>9007199254740997\<close>, and as \<open>tokens_remaining\<close>,
  the rounding of \<open>9007199254740995\<close>. With \<open>tokens_used = 2\<close> the equation fails, as an
  equation between the values and also when the program evaluates it:
  \<open>2 + 9007199254740996\<close> is \<open>9007199254740998\<close>.
\<close>

theorem giveTokens_rounding_breaks_balance:
  "balanced (user_of ledger1 ''bob'')
   \<and> user_of (file_after (giveTokens WriteOk ''t'' ''bob'' (Fin (dbl 9007199254740992))
                 ledger1) ledger1) ''bob''
       = Some (bob\<lparr>tokens_allocated := Some (dbl 9007199254740996),
                   tokens_remaining := Some (dbl 9007199254740996)\<rparr>)
   \<and> tokens_used bob = Some (dbl 2)
   \<and> dval (dbl 9007199254740992) = 9007199254740992
   \<and> dval (dbl 9007199254740996) = 9007199254740996
   \<and> js_add (Fin (dbl 2)) (Fin (dbl 9007199254740996)) = Fin (dbl 9007199254740998)
   \<and> dval (dbl 9007199254740998) = 9007199254740998
   \<and> \<not> balanced (user_of (file_after (giveTokens WriteOk ''t'' ''bob''
                   (Fin (dbl 9007199254740992)) ledger1) ledger1) ''bob'')"
  by (simp add: ledger_defs ledger1_def bob_def dval_small dval_example double_of_example
        balanced_def)

text \<open>
  C7, amended. For every requester record,
  \<open>tokens_used + tokens_remaining = tokens_allocated\<close> holds after \<open>addUser\<close>, \<open>useToken\<close>,
  \<open>giveTokens\<close> and \<open>setTokens\<close> if it held before and every count that the mutation
  writes into the record is a safe integer (of magnitude below \<open>2^53\<close>): whatever the
  write does, whoever the mutation targets, and also for the record that \<open>addUser\<close>
  creates.
\<close>

theorem quota_balance_preserved:
  assumes "balanced (user_of f name)"
  shows "(safe tokens \<longrightarrow>
            balanced (user_of (file_after (addUser wo now who tokens mail nts f) f) name))
       \<and> (use_safe (user_of f name) \<longrightarrow>
            balanced (user_of (file_after (useToken wo now who f) f) name))
       \<and> (give_safe (user_of f name) n \<longrightarrow>
            balanced (user_of (file_after (giveTokens wo now who n f) f) name))
       \<and> (set_safe (user_of f name) m \<longrightarrow>
            balanced (user_of (file_after (setTokens wo now who m f) f) name))"
  using assms
  by (simp add: balanced_addUser balanced_useToken balanced_giveTokens balanced_setTokens)

theorem quota_balance_preserved_witness:
  "balanced (user_of ledger0 ''alice'') \<and> balanced (user_of ledger0 ''carol'')
   \<and> safe (Fin (dbl 5)) \<and> use_safe (user_of ledger0 ''alice'')
   \<and> give_safe (user_of ledger0 ''alice'') (Fin (dbl 2))
   \<and> set_safe (user_of ledger0 ''alice'') (Fin (dbl 4))
   \<and> user_of (file_after (addUser WriteOk ''t'' ''carol'' (Fin (dbl 5)) None '''' ledger0)
                 ledger0) ''carol''
       = Some \<lparr>tokens_allocated = Some (dbl 5), tokens_used = Some (dbl 0),
               tokens_remaining = Some (dbl 5), email = None, created_at = ''t'',
               last_used = None, is_active = True, user_notes = ''''\<rparr>
   \<and> balanced (user_of (file_after (addUser WriteOk ''t'' ''carol'' (Fin (dbl 5)) None ''''
                  ledger0) ledger0) ''carol'')
   \<and> user_of (file_after (useToken WriteOk ''t'' ''alice'' ledger0) ledger0) ''alice''
       = Some (alice\<lparr>tokens_used := Some (dbl 4), tokens_remaining := Some (dbl 1),
                     last_used := Some ''t''\<rparr>)
   \<and> balanced (user_of (file_after (useToken WriteOk ''t'' ''alice'' ledger0) ledger0)
        ''alice'')
   \<and> balanced (user_of (file_after (giveTokens WriteOk ''t'' ''alice'' (Fin (dbl 2)) ledger0)
        ledger0) ''alice'')
   \<and> balanced (user_of (file_after (setTokens WriteOk ''t'' ''alice'' (Fin (dbl 4)) ledger0)
        ledger0) ''alice'')"
proof -
  have h: "balanced (user_of ledger0 ''alice'')"
    by (simp add: balanced_def user_of_def ledger0_def alice_def dval_small)
  have h': "balanced (user_of ledger0 ''carol'')"
    by (simp add: balanced_def user_of_def ledger0_def)
  have s: "safe (Fin (dbl 5))" "use_safe (user_of ledger0 ''alice'')"
    "give_safe (user_of ledger0 ''alice'') (Fin (dbl 2))"
    "set_safe (user_of ledger0 ''alice'') (Fin (dbl 4))"
    by (simp_all add: safe_def use_safe_def give_safe_def set_safe_def ledger_example)
  have b: "user_of (file_after (addUser WriteOk ''t'' ''carol'' (Fin (dbl 5)) None '''' ledger0)
                 ledger0) ''carol''
       = Some \<lparr>tokens_allocated = Some (dbl 5), tokens_used = Some (dbl 0),
               tokens_remaining = Some (dbl 5), email = None, created_at = ''t'',
               last_used = None, is_active = True, user_notes = ''''\<rparr>"
    by (simp add: ledger_example object_prototype_names_def)
  have u: "user_of (file_after (useToken WriteOk ''t'' ''alice'' ledger0) ledger0) ''alice''
       = Some (alice\<lparr>tokens_used := Some (dbl 4), tokens_remaining := Some (dbl 1),
                     last_used := Some ''t''\<rparr>)"
    by (simp add: ledger_example)
  note a = quota_balance_preserved [OF h, where wo = WriteOk and now = "''t''"
      and who = "''alice''" and n = "Fin (dbl 2)" and m = "Fin (dbl 4)"]
  note a' = quota_balance_preserved [OF h', where wo = WriteOk and now = "''t''"
      and who = "''carol''" and tokens = "Fin (dbl 5)" and mail = None and nts = "''''"]
  from a s have "balanced (user_of (file_after (useToken WriteOk ''t'' ''alice'' ledger0)
        ledger0) ''alice'')"
    "balanced (user_of (file_after (giveTokens WriteOk ''t'' ''alice'' (Fin (dbl 2)) ledger0)
        ledger0) ''alice'')"
    "balanced (user_of (file_after (setTokens WriteOk ''t'' ''alice'' (Fin (dbl 4)) ledger0)
        ledger0) ''alice'')"
    by blast+
  moreover from a' s have "balanced (user_of (file_after (addUser WriteOk ''t'' ''carol''
        (Fin (dbl 5)) None '''' ledger0) ledger0) ''carol'')"
    by blast
  ultimately show ?thesis using h h' s b u by blast
qed

text \<open>
  C3, as stated, fails: \<open>setTokens\<close> recomputes \<open>tokens_remaining\<close> as
  \<open>newTotal - tokens_used\<close> with no lower bound. With 3 of 5 tokens used, setting the
  total to 1 leaves \<open>tokens_remaining = -2\<close>.
\<close>

theorem setTokens_negative_remaining:
  "nonneg (user_of ledger0 ''alice'')
   \<and> user_of (file_after (setTokens WriteOk ''t'' ''alice'' (Fin (dbl 1)) ledger0) ledger0)
       ''alice''
       = Some (alice\<lparr>tokens_allocated := Some (dbl 1), tokens_remaining := Some (dbl (- 2))\<rparr>)
   \<and> dval (dbl (- 2)) = - 2
   \<and> \<not> remaining_ok (user_of (file_after (setTokens WriteOk ''t'' ''alice'' (Fin (dbl 1))
                       ledger0) ledger0) ''alice'')"
  by (simp add: ledger_example nonneg_def remaining_ok_def)

text \<open>
  C3, amended. \<open>tokens_used\<close> never decreases under any of the four mutations. If
  \<open>tokens_remaining \<ge> 0\<close> and \<open>tokens_used \<ge> 0\<close> before, both hold after \<open>useToken\<close>; after
  \<open>giveTokens\<close> when \<open>additionalTokens \<ge> 0\<close>; after \<open>setTokens\<close> when \<open>newTotal\<close> is at
  least the target's \<open>tokens_used\<close>; after \<open>addUser\<close> when \<open>tokens \<ge> 0\<close>. The comparisons
  are those of the code, on doubles, a count that is \<open>null\<close> in the file comparing as 0.
\<close>

theorem quota_nonneg_guarded:
  "used_grows (user_of f name) (user_of (file_after (useToken wo now who f) f) name)
   \<and> used_grows (user_of f name) (user_of (file_after (giveTokens wo now who n f) f) name)
   \<and> used_grows (user_of f name) (user_of (file_after (setTokens wo now who m f) f) name)
   \<and> used_grows (user_of f name)
       (user_of (file_after (addUser wo now who tokens mail nts f) f) name)
   \<and> (nonneg (user_of f name) \<longrightarrow>
        nonneg (user_of (file_after (useToken wo now who f) f) name)
      \<and> (js_le (Fin (dbl 0)) n \<longrightarrow>
           nonneg (user_of (file_after (giveTokens wo now who n f) f) name))
      \<and> (used_at_most (user_of f who) m \<longrightarrow>
           nonneg (user_of (file_after (setTokens wo now who m f) f) name))
      \<and> (js_le (Fin (dbl 0)) tokens \<longrightarrow>
           nonneg (user_of (file_after (addUser wo now who tokens mail nts f) f) name)))"
  by (simp add: used_grows_useToken used_grows_others nonneg_useToken nonneg_giveTokens
        nonneg_setTokens nonneg_addUser)

theorem quota_nonneg_guarded_witness:
  "nonneg (user_of ledger0 ''alice'') \<and> js_le (Fin (dbl 0)) (Fin (dbl 2))
   \<and> used_at_most (user_of ledger0 ''alice'') (Fin (dbl 4))
   \<and> js_le (Fin (dbl 0)) (Fin (dbl 5))
   \<and> nonneg (user_of (file_after (useToken WriteOk ''t'' ''alice'' ledger0) ledger0) ''alice'')
   \<and> nonneg (user_of (file_after (giveTokens WriteOk ''t'' ''alice'' (Fin (dbl 2)) ledger0)
        ledger0) ''alice'')
   \<and> nonneg (user_of (file_after (setTokens WriteOk ''t'' ''alice'' (Fin (dbl 4)) ledger0)
        ledger0) ''alice'')
   \<and> nonneg (user_of (file_after (addUser WriteOk ''t'' ''alice'' (Fin (dbl 5)) None ''''
        ledger0) ledger0) ''alice'')
   \<and> user_of (file_after (useToken WriteOk ''t'' ''alice'' ledger0) ledger0) ''alice''
       = Some (alice\<lparr>tokens_used := Some (dbl 4), tokens_remaining := Some (dbl 1),
                     last_used := Some ''t''\<rparr>)
   \<and> used_grows (user_of ledger0 ''alice'')
       (user_of (file_after (useToken WriteOk ''t'' ''alice'' ledger0) ledger0) ''alice'')"
proof -
  have h: "nonneg (user_of ledger0 ''alice'')"
    by (simp add: nonneg_def user_of_def ledger0_def alice_def dval_small)
  have g: "js_le (Fin (dbl 0)) (Fin (dbl 2))" "js_le (Fin (dbl 0)) (Fin (dbl 5))"
    "used_at_most (user_of ledger0 ''alice'') (Fin (dbl 4))"
    by (simp_all add: used_at_most_def user_of_def ledger0_def alice_def dval_small)
  have u: "user_of (file_after (useToken WriteOk ''t'' ''alice'' ledger0) ledger0) ''alice''
       = Some (alice\<lparr>tokens_used := Some (dbl 4), tokens_remaining := Some (dbl 1),
                     last_used := Some ''t''\<rparr>)"
    by (simp add: ledger_example)
  note a = quota_nonneg_guarded [where f = ledger0 and name = "''alice''" and wo = WriteOk
      and now = "''t''" and who = "''alice''" and n = "Fin (dbl 2)" and m = "Fin (dbl 4)"
      and tokens = "Fin (dbl 5)" and mail = None and nts = "''''"]
  from a h g show ?thesis using u by blast
qed

section \<open>Properties of the request validator\<close>

lemmas validate_defs = validateRequest_def js_and_def strict_eq_def field_of_def accepts_def

lemma accepts_iff_truthy:
  "accepts data \<longleftrightarrow>
     read_prop data ''app'' = JStr ''hive_account_faucet''
   \<and> read_prop data ''version'' = JStr ''1.0.0''
   \<and> read_prop data ''action'' = JStr ''create_account_request''
   \<and> truthy (read_prop data ''data'')
   \<and> truthy (read_prop (read_prop data ''data'') ''requested_username'')
   \<and> truthy (read_prop (read_prop data ''data'') ''delivery_method'')"
  by (cases data) (auto simp: validate_defs read_prop_def split: sum.splits option.splits)

lemma accepted_value:
  "accepts data \<Longrightarrow>
     validateRequest data = Inr (read_prop (read_prop data ''data'') ''delivery_method'')"
  by (cases data; cases "read_prop data ''data''")
     (auto simp: validate_defs read_prop_def split: sum.splits option.splits if_splits)

lemma truthy_string: "string_or_absent v \<Longrightarrow> truthy v = nonempty_string v"
  by (cases v) (auto simp: string_or_absent_def nonempty_string_def)

lemma nonempty_prop_truthy: "nonempty_string (read_prop d k) \<Longrightarrow> truthy d"
  by (cases d) (auto simp: nonempty_string_def read_prop_def)

text \<open>
  C9, as stated, fails: the validator tests the two data fields for truthiness only, so
  a field of the wrong type passes. An envelope whose \<open>requested_username\<close> is the number
  12345 is accepted, and what comes back is the \<open>delivery_method\<close> string, not \<open>true\<close>.
\<close>

theorem validateRequest_accepts_number_username:
  "validateRequest (envelope (JNum 12345) (JStr ''email'')) = Inr (JStr ''email'')
   \<and> accepts (envelope (JNum 12345) (JStr ''email''))
   \<and> \<not> spec_valid (envelope (JNum 12345) (JStr ''email''))"
  by (simp add: validate_defs envelope_def spec_valid_def read_prop_def nonempty_string_def)

text \<open>
  C9, amended. \<open>validateRequest\<close> returns a truthy value, namely the value of
  \<open>data.data.delivery_method\<close>, if and only if \<open>app\<close>, \<open>version\<close> and \<open>action\<close> are
  strictly equal to the three fixed strings and \<open>data.data\<close>, \<open>requested_username\<close> and
  \<open>delivery_method\<close> are truthy. When the two data fields are strings or absent, that is
  exactly the condition of the specification.
\<close>

theorem validateRequest_truthy_iff:
  "(accepts data \<longleftrightarrow>
       read_prop data ''app'' = JStr ''hive_account_faucet''
     \<and> read_prop data ''version'' = JStr ''1.0.0''
     \<and> read_prop data ''action'' = JStr ''create_account_request''
     \<and> truthy (read_prop data ''data'')
     \<and> truthy (read_prop (read_prop data ''data'') ''requested_username'')
     \<and> truthy (read_prop (read_prop data ''data'') ''delivery_method''))
   \<and> (accepts data \<longrightarrow>
        validateRequest data = Inr (read_prop (read_prop data ''data'') ''delivery_method''))
   \<and> (string_or_absent (read_prop (read_prop data ''data'') ''requested_username'')
      \<and> string_or_absent (read_prop (read_prop data ''data'') ''delivery_method'')
      \<longrightarrow> (accepts data \<longleftrightarrow> spec_valid data))"
proof (intro conjI impI)
  show "accepts data \<longleftrightarrow>
       read_prop data ''app'' = JStr ''hive_account_faucet''
     \<and> read_prop data ''version'' = JStr ''1.0.0''
     \<and> read_prop data ''action'' = JStr ''create_account_request''
     \<and> truthy (read_prop data ''data'')
     \<and> truthy (read_prop (read_prop data ''data'') ''requested_username'')
     \<and> truthy (read_prop (read_prop data ''data'') ''delivery_method'')"
    by (rule accepts_iff_truthy)
next
  assume "accepts data"
  then show "validateRequest data
               = Inr (read_prop (read_prop data ''data'') ''delivery_method'')"
    by (rule accepted_value)
next
  assume "string_or_absent (read_prop (read_prop data ''data'') ''requested_username'')
        \<and> string_or_absent (read_prop (read_prop data ''data'') ''delivery_method'')"
  then show "accepts data \<longleftrightarrow> spec_valid data"
    using accepts_iff_truthy [of data] truthy_string nonempty_prop_truthy
    unfolding spec_valid_def by blast
qed

theorem validateRequest_truthy_iff_witness:
  "accepts (envelope (JStr ''newuser1'') (JStr ''email''))
   \<and> validateRequest (envelope (JStr ''newuser1'') (JStr ''email'')) = Inr (JStr ''email'')
   \<and> string_or_absent
       (read_prop (read_prop (envelope (JStr ''newuser1'') (JStr ''email'')) ''data'')
          ''requested_username'')
   \<and> string_or_absent
       (read_prop (read_prop (envelope (JStr ''newuser1'') (JStr ''email'')) ''data'')
          ''delivery_method'')
   \<and> spec_valid (envelope (JStr ''newuser1'') (JStr ''email''))"
proof -
  have a: "accepts (envelope (JStr ''newuser1'') (JStr ''email''))"
    by (simp add: validate_defs envelope_def)
  have s: "string_or_absent
       (read_prop (read_prop (envelope (JStr ''newuser1'') (JStr ''email'')) ''data'')
          ''requested_username'')
   \<and> string_or_absent
       (read_prop (read_prop (envelope (JStr ''newuser1'') (JStr ''email'')) ''data'')
          ''delivery_method'')"
    by (simp add: envelope_def read_prop_def string_or_absent_def)
  have d: "read_prop (read_prop (envelope (JStr ''newuser1'') (JStr ''email'')) ''data'')
             ''delivery_method'' = JStr ''email''"
    by (simp add: envelope_def read_prop_def)
  note t = validateRequest_truthy_iff [of "envelope (JStr ''newuser1'') (JStr ''email'')"]
  from t a d have v:
    "validateRequest (envelope (JStr ''newuser1'') (JStr ''email'')) = Inr (JStr ''email'')"
    by metis
  from t a s have sv: "spec_valid (envelope (JStr ''newuser1'') (JStr ''email''))"
    by blast
  from a v s sv show ?thesis
    by blast
qed

section \<open>Properties of the pending-credentials store\<close>

lemma savePending_frame:
  "users_file (savePending wo list w) = users_file w"
  "fs_calls (savePending wo list w) = fs_calls w @ [WriteFileSync RecoveryFile]"
  "chain_calls (savePending wo list w) = chain_calls w"
  "last_block_file (savePending wo list w) = last_block_file w"
  by (simp_all add: savePending_def Let_def split: write_outcome.splits)

lemma savePending_file:
  "recovery_file (savePending WriteOk list w) = PendingList list"
  "recovery_file (savePending WriteFails list w) = recovery_file w"
  "recovery_file (savePending WriteTorn list w) = PendingTruncated"
  by (simp_all add: savePending_def Let_def)

text \<open>
  The sibling \<open>saveLastBlock\<close> does write a temporary file and rename it: the two calls
  are a write of \<open>last_block.json.tmp\<close> and a rename over \<open>last_block.json\<close>, and a write
  that fails or stops part-way leaves \<open>last_block.json\<close> as it was.
\<close>

lemma saveLastBlock_renames:
  assumes "\<not> js_falsy (lastProcessedBlock m)"
    and "\<not> js_le (lastProcessedBlock m) (Fin (dbl 0))"
    and "force \<or> \<not> js_same (lastSavedBlock m) (lastProcessedBlock m)"
  shows "fs_calls (snd (saveLastBlock force WriteOk rn t (m, w)))
           = fs_calls w @ [WriteFileSync LastBlockTmp, RenameSync LastBlockTmp LastBlockFile]"
    and "wo \<noteq> WriteOk \<Longrightarrow>
           last_block_file (snd (saveLastBlock force wo rn t (m, w))) = last_block_file w"
  using assms by (auto simp: saveLastBlock_def Let_def split: write_outcome.splits)

text \<open>
  C2. \<open>savePending\<close> does not write a temporary file and rename it: its only file-system
  call is \<open>writeFileSync\<close> on the recovery file itself. With one record in the store, an
  \<open>addPending\<close> whose write stops part-way leaves a truncated file that can no longer be
  parsed, and \<open>loadPending\<close> then returns the empty list: the record that was there is
  gone, and so is the new one.
\<close>

theorem savePending_torn_write_loses_records:
  "pending_records (world0\<lparr>recovery_file := PendingList [old_record]\<rparr>) = [old_record]
   \<and> addPending WriteTorn new_record (world0\<lparr>recovery_file := PendingList [old_record]\<rparr>)
       = Inr (world0\<lparr>recovery_file := PendingTruncated,
                     fs_calls := [WriteFileSync RecoveryFile]\<rparr>)
   \<and> loadPending (world0\<lparr>recovery_file := PendingTruncated,
                           fs_calls := [WriteFileSync RecoveryFile]\<rparr>) = LoadedList []
   \<and> pending_records (world0\<lparr>recovery_file := PendingTruncated,
                               fs_calls := [WriteFileSync RecoveryFile]\<rparr>) = []"
  by (simp add: addPending_def loadPending_def savePending_def pending_records_def world0_def)




section \<open>Properties of the memo channel\<close>

text \<open>\<open>js_includes\<close> is the substring test.\<close>

lemma starts_with_iff: "starts_with s t \<longleftrightarrow> (\<exists>q. s = t @ q)"
  by (induction s t rule: starts_with.induct) auto

lemma js_includes_iff: "js_includes s t \<longleftrightarrow> (\<exists>p q. s = p @ t @ q)"
proof (induction s)
  case Nil
  then show ?case by auto
next
  case (Cons c cs)
  show ?case
  proof
    assume "js_includes (c # cs) t"
    then consider "starts_with (c # cs) t" | "js_includes cs t" by auto
    then show "\<exists>p q. c # cs = p @ t @ q"
    proof cases
      case 1
      then obtain q where "c # cs = t @ q" by (auto simp: starts_with_iff)
      then have "c # cs = [] @ t @ q" by simp
      then show ?thesis by blast
    next
      case 2
      with Cons obtain p q where "cs = p @ t @ q" by blast
      then have "c # cs = (c # p) @ t @ q" by simp
      then show ?thesis by blast
    qed
  next
    assume "\<exists>p q. c # cs = p @ t @ q"
    then obtain p q where pq: "c # cs = p @ t @ q" by blast
    show "js_includes (c # cs) t"
    proof (cases p)
      case Nil
      with pq have "starts_with (c # cs) t" by (auto simp: starts_with_iff)
      then show ?thesis by simp
    next
      case (Cons a p')
      with pq have "cs = p' @ t @ q" by simp
      with Cons.IH have "js_includes cs t" by blast
      then show ?thesis by simp
    qed
  qed
qed

text \<open>A success means that the encoded memo contained neither string.\<close>

lemma sendAccountMemo_success:
  assumes "success (fst (sendAccountMemo m e r a w))"
  shows "\<exists>account rest enc.
           recipient_reply e = Inr (account # rest)
         \<and> memo_encode e (creatingMemoKey m) (memo_key account) (CHR ''#'' # memoMessage a)
             = Inr enc
         \<and> \<not> js_includes enc (username a) \<and> \<not> js_includes enc (masterPassword a)"
  using assms
  by (auto simp: sendAccountMemo_def Let_def split: sum.splits list.splits if_splits)

text \<open>
  C5. Whenever the text that \<open>hive.memo.encode\<close> returns contains the account name or
  the master password as a substring, \<open>sendAccountMemo\<close> returns a failure and the world
  is untouched: \<open>hive.broadcast.transfer\<close> is not called.
\<close>

theorem memo_leak_never_sent:
  assumes "recipient_reply e = Inr (account # rest)"
    and "memo_encode e (creatingMemoKey m) (memo_key account) (CHR ''#'' # memoMessage a)
           = Inr enc"
    and "(\<exists>p q. enc = p @ username a @ q) \<or> (\<exists>p q. enc = p @ masterPassword a @ q)"
  shows "\<not> success (fst (sendAccountMemo m e r a w))
       \<and> snd (sendAccountMemo m e r a w) = w
       \<and> chain_calls (snd (sendAccountMemo m e r a w)) = chain_calls w"
proof -
  from assms(3) have "js_includes enc (username a) \<or> js_includes enc (masterPassword a)"
    by (simp add: js_includes_iff)
  with assms(1,2) show ?thesis
    by (auto simp: sendAccountMemo_def Let_def)
qed

theorem memo_leak_never_sent_witness:
  "recipient_reply (env0\<lparr>memo_encode := (\<lambda>priv pub msg. Inr msg)\<rparr>)
     = Inr [\<lparr>memo_key = ''STMalice'', hbd_balance = 0\<rparr>]
   \<and> (\<exists>p q. CHR ''#'' # memoMessage account0 = p @ username account0 @ q)
   \<and> \<not> success (fst (sendAccountMemo (monitor0\<lparr>creatingMemoKey := Some ''5Memo''\<rparr>)
                       (env0\<lparr>memo_encode := (\<lambda>priv pub msg. Inr msg)\<rparr>) ''alice'' account0 world0))
   \<and> chain_calls (snd (sendAccountMemo (monitor0\<lparr>creatingMemoKey := Some ''5Memo''\<rparr>)
                       (env0\<lparr>memo_encode := (\<lambda>priv pub msg. Inr msg)\<rparr>) ''alice'' account0 world0))
       = []"
proof -
  let ?e = "env0\<lparr>memo_encode := (\<lambda>priv pub msg. Inr msg)\<rparr>"
  let ?m = "monitor0\<lparr>creatingMemoKey := Some ''5Memo''\<rparr>"
  let ?acc = "\<lparr>memo_key = ''STMalice'', hbd_balance = 0\<rparr>"
  have r: "recipient_reply ?e = Inr (?acc # [])"
    by (simp add: env0_def)
  have enc: "memo_encode ?e (creatingMemoKey ?m) (memo_key ?acc) (CHR ''#'' # memoMessage account0)
               = Inr (CHR ''#'' # memoMessage account0)"
    by simp
  have msg: "CHR ''#'' # memoMessage account0
          = ''#Account created: '' @ username account0
            @ ([CHR 0x0A] @ ''Master Password: '' @ masterPassword account0 @ [CHR 0x0A, CHR 0x0A]
               @ ''Import this to Keychain to access your account.'')"
    by (simp add: memoMessage_def)
  then have p1: "\<exists>p q. CHR ''#'' # memoMessage account0 = p @ username account0 @ q"
    by blast
  then have leak: "(\<exists>p q. CHR ''#'' # memoMessage account0 = p @ username account0 @ q)
      \<or> (\<exists>p q. CHR ''#'' # memoMessage account0 = p @ masterPassword account0 @ q)"
    by blast
  have c0: "chain_calls world0 = []"
    by (simp add: world0_def)
  note t = memo_leak_never_sent [OF r enc leak, of "''alice''" world0]
  from r p1 t c0 show ?thesis
    by simp
qed

section \<open>Properties of \<open>processAccountRequest\<close>\<close>

text \<open>Provisioning and the two channels leave both files alone.\<close>

lemma createHiveAccount_frame:
  "users_file (snd (createHiveAccount e n ks ca ck w)) = users_file w"
  "recovery_file (snd (createHiveAccount e n ks ca ck w)) = recovery_file w"
  "fs_calls (snd (createHiveAccount e n ks ca ck w)) = fs_calls w"
  by (simp_all add: createHiveAccount_def Let_def split: option.splits sum.splits)

lemma sendAccountCredentials_frame:
  "users_file (snd (sendAccountCredentials c rp addr a w)) = users_file w"
  "recovery_file (snd (sendAccountCredentials c rp addr a w)) = recovery_file w"
  "fs_calls (snd (sendAccountCredentials c rp addr a w)) = fs_calls w"
  by (simp_all add: sendAccountCredentials_def Let_def split: sum.splits)

lemma sendAccountMemo_frame:
  "users_file (snd (sendAccountMemo m e r a w)) = users_file w"
  "recovery_file (snd (sendAccountMemo m e r a w)) = recovery_file w"
  "fs_calls (snd (sendAccountMemo m e r a w)) = fs_calls w"
  by (simp_all add: sendAccountMemo_def Let_def split: sum.splits list.splits)

lemma deliverEmail_frame:
  "users_file (snd (deliverEmail m e dm addr a w)) = users_file w"
  "recovery_file (snd (deliverEmail m e dm addr a w)) = recovery_file w"
  "fs_calls (snd (deliverEmail m e dm addr a w)) = fs_calls w"
  by (simp_all add: deliverEmail_def sendAccountCredentials_frame split: option.splits)

lemma deliverMemo_frame:
  "users_file (snd (deliverMemo m e dm r a w)) = users_file w"
  "recovery_file (snd (deliverMemo m e dm r a w)) = recovery_file w"
  "fs_calls (snd (deliverMemo m e dm r a w)) = fs_calls w"
  by (simp_all add: deliverMemo_def Let_def sendAccountMemo_frame)

text \<open>A channel that was not asked for reports \<open>{ success: false }\<close> and does nothing.\<close>

lemma channel_not_requested:
  "deliverMemo m e ''email'' r a w = (\<lparr>success = False, error = None\<rparr>, w)"
  "deliverEmail m e ''hive_memo'' addr a w = (\<lparr>success = False, error = None\<rparr>, w)"
  by (simp_all add: deliverMemo_def deliverEmail_def)

text \<open>
  C4. If \<open>createHiveAccount\<close> returns a failure for the request, \<open>processAccountRequest\<close>
  ends as rejected with the pending-credentials file and the quota ledger exactly as
  they were, and without a single file-system call.
\<close>

theorem creation_failure_changes_nothing:
  assumes "\<not> success (fst (createHiveAccount e (requested_username rq)
                               (derive_keys e (requested_username rq) (new_password e))
                               (creatingAccount m) (creatingActiveKey m) w))"
  shows "recovery_file (snd (processAccountRequest m e rq w)) = recovery_file w
       \<and> users_file (snd (processAccountRequest m e rq w)) = users_file w
       \<and> fs_calls (snd (processAccountRequest m e rq w)) = fs_calls w
       \<and> (\<exists>x. fst (processAccountRequest m e rq w) = Rejected x
              \<or> fst (processAccountRequest m e rq w) = CreationFailed x)"
proof (cases "authorized (checkAuthorization (users_file w) (rq_requester rq))")
  case False
  then show ?thesis
    by (simp add: processAccountRequest_def Let_def)
next
  case True
  obtain r w1 where c: "createHiveAccount e (requested_username rq)
                               (derive_keys e (requested_username rq) (new_password e))
                               (creatingAccount m) (creatingActiveKey m) w = (r, w1)"
    by (cases "createHiveAccount e (requested_username rq)
                               (derive_keys e (requested_username rq) (new_password e))
                               (creatingAccount m) (creatingActiveKey m) w")
  with assms have f: "\<not> success r" by simp
  from c have w1: "recovery_file w1 = recovery_file w" "users_file w1 = users_file w"
      "fs_calls w1 = fs_calls w"
    using createHiveAccount_frame [of e "requested_username rq"
        "derive_keys e (requested_username rq) (new_password e)" "creatingAccount m"
        "creatingActiveKey m" w]
    by simp_all
  from True c f have "processAccountRequest m e rq w = (CreationFailed (creation_error r), w1)"
    by (simp add: processAccountRequest_def Let_def)
  with w1 show ?thesis by simp
qed

theorem creation_failure_changes_nothing_witness:
  "\<not> success (fst (createHiveAccount (env0\<lparr>create_reply := Inl (Thrown ''no ACT'')\<rparr>)
                     (requested_username request0)
                     (derive_keys (env0\<lparr>create_reply := Inl (Thrown ''no ACT'')\<rparr>)
                        (requested_username request0)
                        (new_password (env0\<lparr>create_reply := Inl (Thrown ''no ACT'')\<rparr>)))
                     (creatingAccount monitor0) (creatingActiveKey monitor0) world0))
   \<and> fst (processAccountRequest monitor0 (env0\<lparr>create_reply := Inl (Thrown ''no ACT'')\<rparr>)
            request0 world0) = CreationFailed (Some ''no ACT'')
   \<and> recovery_file (snd (processAccountRequest monitor0
                            (env0\<lparr>create_reply := Inl (Thrown ''no ACT'')\<rparr>) request0 world0))
       = PendingList []
   \<and> users_file (snd (processAccountRequest monitor0
                         (env0\<lparr>create_reply := Inl (Thrown ''no ACT'')\<rparr>) request0 world0))
       = ledger0"
proof -
  let ?e = "env0\<lparr>create_reply := Inl (Thrown ''no ACT'')\<rparr>"
  have h: "\<not> success (fst (createHiveAccount ?e (requested_username request0)
                     (derive_keys ?e (requested_username request0) (new_password ?e))
                     (creatingAccount monitor0) (creatingActiveKey monitor0) world0))"
    by (simp add: createHiveAccount_def checkUsernameAvailability_def env0_def Let_def)
  have o: "fst (processAccountRequest monitor0 ?e request0 world0)
             = CreationFailed (Some ''no ACT'')"
    by (simp add: processAccountRequest_def createHiveAccount_def checkUsernameAvailability_def
          checkAuthorization_def lookup_user_def dval_small error_message_def env0_def
          world0_def ledger0_def alice_def request0_def Let_def)
  have w: "recovery_file world0 = PendingList []" "users_file world0 = ledger0"
    by (simp_all add: world0_def)
  from h o w creation_failure_changes_nothing [OF h] show ?thesis
    by simp
qed

text \<open>
  What a run that reaches the delivery summary has done: the account was created, the
  credentials went through \<open>addPending\<close>, and the outcome follows \<open>overallSuccess\<close>. On a
  failed delivery nothing more touches the two files.
\<close>

lemma delivery_failed_run:
  assumes "processAccountRequest m e rq w = (DeliveryFailed er mr, w')"
  shows "\<exists>w1 w2 tx.
           addPending (add_write e)
             \<lparr>username = requested_username rq, masterPassword = new_password e,
              ownerKey = key_owner (derive_keys e (requested_username rq) (new_password e)),
              activeKey = key_active (derive_keys e (requested_username rq) (new_password e)),
              postingKey = key_posting (derive_keys e (requested_username rq) (new_password e)),
              memoKey = key_memo (derive_keys e (requested_username rq) (new_password e)),
              transactionId = tx, requester = rq_requester rq,
              pending_created_at = clock e\<rparr> w1 = Inr w2
         \<and> users_file w1 = users_file w \<and> recovery_file w1 = recovery_file w
         \<and> fs_calls w1 = fs_calls w
         \<and> users_file w' = users_file w2 \<and> recovery_file w' = recovery_file w2
         \<and> fs_calls w' = fs_calls w2
         \<and> \<not> overallSuccess (delivery_method rq) er mr"
proof -
  let ?ks = "derive_keys e (requested_username rq) (new_password e)"
  obtain r w1 where c: "createHiveAccount e (requested_username rq) ?ks
                          (creatingAccount m) (creatingActiveKey m) w = (r, w1)"
    by (cases "createHiveAccount e (requested_username rq) ?ks
                 (creatingAccount m) (creatingActiveKey m) w")
  have w1: "users_file w1 = users_file w" "recovery_file w1 = recovery_file w"
      "fs_calls w1 = fs_calls w"
    using c createHiveAccount_frame [of e "requested_username rq" ?ks "creatingAccount m"
        "creatingActiveKey m" w]
    by simp_all
  let ?rec = "\<lparr>username = requested_username rq, masterPassword = new_password e,
              ownerKey = key_owner ?ks, activeKey = key_active ?ks,
              postingKey = key_posting ?ks, memoKey = key_memo ?ks,
              transactionId = creation_tx r, requester = rq_requester rq,
              pending_created_at = clock e\<rparr>"
  from assms c obtain w2 where a: "addPending (add_write e) ?rec w1 = Inr w2"
    by (auto simp: processAccountRequest_def Let_def
             split: if_splits sum.splits prod.splits)
  from assms c a have rest:
    "users_file w' = users_file w2 \<and> recovery_file w' = recovery_file w2
     \<and> fs_calls w' = fs_calls w2 \<and> \<not> overallSuccess (delivery_method rq) er mr"
    by (auto simp: processAccountRequest_def Let_def deliverEmail_frame deliverMemo_frame
             split: if_splits sum.splits prod.splits
             dest!: arg_cong [where f = snd])
  from a w1 rest show ?thesis by blast
qed

lemma addPending_ok:
  assumes "addPending WriteOk r w1 = Inr w2"
  shows "pending_records w2 = pending_records w1 @ [r]"
  using assms
  by (auto simp: addPending_def loadPending_def savePending_def pending_records_def Let_def
           split: pending_file.splits)

lemma addPending_calls:
  assumes "addPending wo r w1 = Inr w2"
  shows "fs_calls w2 = fs_calls w1 @ [WriteFileSync RecoveryFile]"
    and "users_file w2 = users_file w1"
  using assms
  by (auto simp: addPending_def savePending_frame split: loaded.splits)

lemma delivery_failed_store:
  assumes "processAccountRequest m e rq w = (DeliveryFailed er mr, w')"
  shows "users_file w' = users_file w"
    and "fs_calls w' = fs_calls w @ [WriteFileSync RecoveryFile]"
    and "add_write e = WriteOk \<Longrightarrow>
           \<exists>r. pending_records w' = pending_records w @ [r]
              \<and> username r = requested_username rq
              \<and> masterPassword r = new_password e
              \<and> ownerKey r = key_owner (derive_keys e (requested_username rq) (new_password e))
              \<and> activeKey r = key_active (derive_keys e (requested_username rq) (new_password e))
              \<and> postingKey r = key_posting (derive_keys e (requested_username rq) (new_password e))
              \<and> memoKey r = key_memo (derive_keys e (requested_username rq) (new_password e))
              \<and> requester r = rq_requester rq"
proof -
  let ?ks = "derive_keys e (requested_username rq) (new_password e)"
  from delivery_failed_run [OF assms] obtain w1 w2 tx where
    a: "addPending (add_write e)
             \<lparr>username = requested_username rq, masterPassword = new_password e,
              ownerKey = key_owner ?ks, activeKey = key_active ?ks,
              postingKey = key_posting ?ks, memoKey = key_memo ?ks,
              transactionId = tx, requester = rq_requester rq,
              pending_created_at = clock e\<rparr> w1 = Inr w2"
    and w1: "users_file w1 = users_file w" "recovery_file w1 = recovery_file w"
            "fs_calls w1 = fs_calls w"
    and w': "users_file w' = users_file w2" "recovery_file w' = recovery_file w2"
            "fs_calls w' = fs_calls w2"
    by blast
  from addPending_calls [OF a] w1 w' show "users_file w' = users_file w"
    and "fs_calls w' = fs_calls w @ [WriteFileSync RecoveryFile]"
    by simp_all
  assume "add_write e = WriteOk"
  with a addPending_ok have "pending_records w2 = pending_records w1 @
             [\<lparr>username = requested_username rq, masterPassword = new_password e,
              ownerKey = key_owner ?ks, activeKey = key_active ?ks,
              postingKey = key_posting ?ks, memoKey = key_memo ?ks,
              transactionId = tx, requester = rq_requester rq,
              pending_created_at = clock e\<rparr>]"
    by simp
  with w1 w' show "\<exists>r. pending_records w' = pending_records w @ [r]
              \<and> username r = requested_username rq
              \<and> masterPassword r = new_password e
              \<and> ownerKey r = key_owner ?ks \<and> activeKey r = key_active ?ks
              \<and> postingKey r = key_posting ?ks \<and> memoKey r = key_memo ?ks
              \<and> requester r = rq_requester rq"
    by (simp add: pending_records_def)
qed

lemma fulfilled_run:
  assumes "processAccountRequest m e rq w = (Fulfilled t er mr, w')"
  shows "overallSuccess (delivery_method rq) er mr"
  using assms
  by (auto simp: processAccountRequest_def Let_def
           split: if_splits sum.splits prod.splits)

text \<open>The two example runs: no channel works, and only the mail goes out.\<close>

lemmas request_defs = processAccountRequest_def createHiveAccount_def
  checkUsernameAvailability_def checkAuthorization_def lookup_user_def addPending_def
  loadPending_def savePending_def deliverEmail_def deliverMemo_def sendAccountCredentials_def
  canSendMemo_def checkHBDBalance_def unset_def overallSuccess_def js_trim_def is_space_def
  ascii_def pending_records_def has_pending_def dval_small

lemmas example_defs = monitor0_def env0_def request0_def world0_def ledger0_def alice_def
  keys0_def new_record_def old_record_def

lemma run_no_channel:
  "processAccountRequest monitor0 (env0\<lparr>add_write := wo\<rparr>) request0 world0
     = (DeliveryFailed \<lparr>success = False, error = None\<rparr>
                       \<lparr>success = False, error = Some ''Missing faucet memo key''\<rparr>,
        savePending wo [new_record]
          (world0\<lparr>chain_calls := [CreateClaimedAccount (Some ''faucet'') ''newuser3''
                                    ''STMo'' ''STMa'' ''STMp'' ''STMm'']\<rparr>))"
  by (cases wo) (simp_all add: request_defs example_defs Let_def)

lemma run_mail_only:
  "processAccountRequest (monitor0\<lparr>emailConfigured := True\<rparr>) (env0\<lparr>add_write := wo\<rparr>)
       request0 (world0\<lparr>recovery_file := PendingList [old_record]\<rparr>)
     = (DeliveryFailed \<lparr>success = True, error = None\<rparr>
                       \<lparr>success = False, error = Some ''Missing faucet memo key''\<rparr>,
        (savePending wo [old_record, new_record]
          (world0\<lparr>recovery_file := PendingList [old_record],
                  chain_calls := [CreateClaimedAccount (Some ''faucet'') ''newuser3''
                                    ''STMo'' ''STMa'' ''STMp'' ''STMm'']\<rparr>))
          \<lparr>mails := [\<lparr>mail_to = ascii ''alice@example.org'', mail_account = account0\<rparr>]\<rparr>)"
  by (cases wo) (simp_all add: request_defs example_defs account0_def Let_def)

text \<open>
  Whatever the write of \<open>addPending\<close> does, a failed delivery leaves the quota ledger
  alone and makes no file-system call but that write; and \<open>overallSuccess\<close> is the
  conjunction of the two channel results for \<open>both\<close> and their disjunction otherwise,
  a channel that was not asked for counting as failed.
\<close>

lemma overallSuccess_formula:
  "overallSuccess ''both'' x y = (success x \<and> success y)"
  "dm \<noteq> ''both'' \<Longrightarrow> overallSuccess dm x y = (success x \<or> success y)"
  "processAccountRequest m e rq w = (Fulfilled t er mr, w') \<Longrightarrow>
     overallSuccess (delivery_method rq) er mr"
  "processAccountRequest m e rq w = (DeliveryFailed er mr, w') \<Longrightarrow>
     \<not> overallSuccess (delivery_method rq) er mr"
proof -
  show "overallSuccess ''both'' x y = (success x \<and> success y)"
    by (simp add: overallSuccess_def)
  show "dm \<noteq> ''both'' \<Longrightarrow> overallSuccess dm x y = (success x \<or> success y)"
    by (simp add: overallSuccess_def)
  show "processAccountRequest m e rq w = (Fulfilled t er mr, w') \<Longrightarrow>
     overallSuccess (delivery_method rq) er mr"
    by (rule fulfilled_run)
  show "processAccountRequest m e rq w = (DeliveryFailed er mr, w') \<Longrightarrow>
     \<not> overallSuccess (delivery_method rq) er mr"
    using delivery_failed_run by blast
qed

text \<open>
  C1. With a valid request of an authorized requester, the account created on the
  chain, the write of \<open>addPending\<close> failing and no channel working, the request ends as a
  failed delivery, the ledger is untouched, and the store holds no record for
  \<open>newuser3\<close>: the only copy of the credentials of the account that now exists on the
  chain is gone when the function returns. \<open>savePending\<close> has caught the error of the
  write and \<open>addPending\<close> cannot tell its caller.
\<close>

theorem delivery_failure_without_pending_record:
  "authorized (checkAuthorization (users_file world0) (rq_requester request0))
   \<and> processAccountRequest monitor0 (env0\<lparr>add_write := WriteFails\<rparr>) request0 world0
       = (DeliveryFailed \<lparr>success = False, error = None\<rparr>
                         \<lparr>success = False, error = Some ''Missing faucet memo key''\<rparr>,
          world0\<lparr>fs_calls := [WriteFileSync RecoveryFile],
                 chain_calls := [CreateClaimedAccount (Some ''faucet'') ''newuser3''
                                   ''STMo'' ''STMa'' ''STMp'' ''STMm'']\<rparr>)
   \<and> users_file
        (snd (processAccountRequest monitor0 (env0\<lparr>add_write := WriteFails\<rparr>) request0 world0))
       = ledger0
   \<and> pending_records
        (snd (processAccountRequest monitor0 (env0\<lparr>add_write := WriteFails\<rparr>) request0 world0))
       = []
   \<and> \<not> has_pending
        (snd (processAccountRequest monitor0 (env0\<lparr>add_write := WriteFails\<rparr>) request0 world0))
        ''newuser3''"
  unfolding run_no_channel
  by (simp add: savePending_def pending_records_def has_pending_def world0_def
        checkAuthorization_def lookup_user_def ledger0_def alice_def request0_def dval_small)

text \<open>
  C6. With \<open>both\<close> requested, the mail sent and the memo refused, \<open>overallSuccess\<close> is
  false as the claim says, and \<open>removePending\<close> is not called. But the write of
  \<open>addPending\<close> went to the recovery file itself and stopped part-way: the file is
  truncated, and there is no pending record afterwards, neither for \<open>newuser3\<close> nor the
  one that \<open>olduser\<close> had before.
\<close>

theorem partial_delivery_without_pending_record:
  "delivery_method request0 = ''both''
   \<and> has_pending (world0\<lparr>recovery_file := PendingList [old_record]\<rparr>) ''olduser''
   \<and> fst (processAccountRequest (monitor0\<lparr>emailConfigured := True\<rparr>)
            (env0\<lparr>add_write := WriteTorn\<rparr>) request0
            (world0\<lparr>recovery_file := PendingList [old_record]\<rparr>))
       = DeliveryFailed \<lparr>success = True, error = None\<rparr>
                        \<lparr>success = False, error = Some ''Missing faucet memo key''\<rparr>
   \<and> \<not> overallSuccess ''both'' \<lparr>success = True, error = None\<rparr>
           \<lparr>success = False, error = Some ''Missing faucet memo key''\<rparr>
   \<and> fs_calls
        (snd (processAccountRequest (monitor0\<lparr>emailConfigured := True\<rparr>)
                (env0\<lparr>add_write := WriteTorn\<rparr>) request0
                (world0\<lparr>recovery_file := PendingList [old_record]\<rparr>)))
       = [WriteFileSync RecoveryFile]
   \<and> recovery_file
        (snd (processAccountRequest (monitor0\<lparr>emailConfigured := True\<rparr>)
                (env0\<lparr>add_write := WriteTorn\<rparr>) request0
                (world0\<lparr>recovery_file := PendingList [old_record]\<rparr>)))
       = PendingTruncated
   \<and> \<not> has_pending
        (snd (processAccountRequest (monitor0\<lparr>emailConfigured := True\<rparr>)
                (env0\<lparr>add_write := WriteTorn\<rparr>) request0
                (world0\<lparr>recovery_file := PendingList [old_record]\<rparr>)))
        ''newuser3''
   \<and> \<not> has_pending
        (snd (processAccountRequest (monitor0\<lparr>emailConfigured := True\<rparr>)
                (env0\<lparr>add_write := WriteTorn\<rparr>) request0
                (world0\<lparr>recovery_file := PendingList [old_record]\<rparr>)))
        ''olduser''"
  unfolding run_mail_only
  by (simp add: savePending_def pending_records_def has_pending_def world0_def request0_def
        old_record_def overallSuccess_def)

text \<open>
  An address of white space only, here a single NO-BREAK SPACE, is no address: \<open>trim\<close>
  leaves the empty string and the channel reports that no email is registered.
\<close>

lemma deliverEmail_blank_address:
  "deliverEmail m e ''email'' (Some [0xA0]) a w
     = (\<lparr>success = False, error = Some ''No registered email''\<rparr>, w)"
  by (simp add: deliverEmail_def js_trim_def is_space_def)

section \<open>Properties of the block pump\<close>

lemma saveLastBlock_keeps_cursor:
  "lastProcessedBlock (fst (saveLastBlock force wo rn t (m, w))) = lastProcessedBlock m"
  "isRunning (fst (saveLastBlock force wo rn t (m, w))) = isRunning m"
  by (simp_all add: saveLastBlock_def Let_def split: write_outcome.splits)

lemma apart_from_cursor_refl: "apart_from_cursor w w"
  by (simp add: apart_from_cursor_def)

lemma saveLastBlock_frame:
  "apart_from_cursor (snd (saveLastBlock force wo rn t (m, w))) w"
  by (simp add: saveLastBlock_def apart_from_cursor_def Let_def split: write_outcome.splits)

text \<open>
  A block that \<open>processBlock\<close> gets through without an exception has been processed in
  full; and it gets through exactly when no transaction lacks its operations.
\<close>

lemma process_operations_fold:
  "process_operations pcj ops n tx w = fold (apply_operation pcj n) (map (Pair tx) ops) w"
  by (induction ops arbitrary: w) (simp_all add: apply_operation_def)

lemma process_transactions_fold:
  assumes "fst (process_transactions pcj txs n w) = None"
  shows "snd (process_transactions pcj txs n w)
           = fold (apply_operation pcj n)
               (concat (map (\<lambda>t. case operations t of
                                    None \<Rightarrow> []
                                  | Some ops \<Rightarrow> map (Pair (transaction_id t)) ops) txs)) w"
  using assms
  by (induction txs arbitrary: w) (auto simp: process_operations_fold split: option.splits)

lemma process_transactions_through:
  "fst (process_transactions pcj txs n w) = None \<longleftrightarrow> (\<forall>t \<in> set txs. operations t \<noteq> None)"
  by (induction txs arbitrary: w) (auto split: option.splits)

lemma processBlock_full:
  assumes "fst (processBlock pcj b n w) = None"
  shows "snd (processBlock pcj b n w) = fold (apply_operation pcj n) (block_operations b) w"
proof (cases "transactions b")
  case None
  then show ?thesis by (simp add: processBlock_def block_operations_def)
next
  case (Some txs)
  show ?thesis
  proof (cases txs)
    case Nil
    with Some show ?thesis by (simp add: processBlock_def block_operations_def)
  next
    case (Cons t rest)
    with Some assms have "fst (process_transactions pcj txs n w) = None"
      by (simp add: processBlock_def)
    from process_transactions_fold [OF this] Some Cons show ?thesis
      by (simp add: processBlock_def block_operations_def)
  qed
qed

text \<open>The four ways through one iteration.\<close>

lemma stream_iteration_miss:
  assumes "getBlock ie (js_add (lastProcessedBlock (mon p)) (Fin (dbl 1))) = NoBlockYet
         \<or> getBlock ie (js_add (lastProcessedBlock (mon p)) (Fin (dbl 1))) = FetchFailed err"
  shows "stream_iteration pcj ie p
           = p\<lparr>events := events p @
                  [GetBlock (js_add (lastProcessedBlock (mon p)) (Fin (dbl 1))),
                   Sleep (if getBlock ie (js_add (lastProcessedBlock (mon p)) (Fin (dbl 1)))
                             = NoBlockYet
                          then 3000 else 5000)]\<rparr>"
  using assms by (auto simp: stream_iteration_def Let_def)

lemma stream_iteration_thrown:
  assumes "getBlock ie (js_add (lastProcessedBlock (mon p)) (Fin (dbl 1))) = Fetched b"
    and "fst (processBlock pcj b (js_add (lastProcessedBlock (mon p)) (Fin (dbl 1))) (wld p))
           = Some err"
  shows "stream_iteration pcj ie p
           = p\<lparr>wld := snd (processBlock pcj b
                            (js_add (lastProcessedBlock (mon p)) (Fin (dbl 1))) (wld p)),
                events := events p @
                  [GetBlock (js_add (lastProcessedBlock (mon p)) (Fin (dbl 1))), Sleep 5000]\<rparr>"
  using assms by (auto simp: stream_iteration_def Let_def split: prod.splits)

lemma stream_iteration_processed:
  assumes "getBlock ie (js_add (lastProcessedBlock (mon p)) (Fin (dbl 1))) = Fetched b"
    and "fst (processBlock pcj b (js_add (lastProcessedBlock (mon p)) (Fin (dbl 1))) (wld p))
           = None"
  shows "lastProcessedBlock (mon (stream_iteration pcj ie p))
           = js_add (lastProcessedBlock (mon p)) (Fin (dbl 1))"
    and "apart_from_cursor (wld (stream_iteration pcj ie p))
           (snd (processBlock pcj b (js_add (lastProcessedBlock (mon p)) (Fin (dbl 1)))
                  (wld p)))"
    and "events (stream_iteration pcj ie p)
           = events p @ [GetBlock (js_add (lastProcessedBlock (mon p)) (Fin (dbl 1)))]"
proof -
  let ?n = "js_add (lastProcessedBlock (mon p)) (Fin (dbl 1))"
  let ?m1 = "(mon p)\<lparr>lastProcessedBlock := ?n\<rparr>"
  obtain w' where pb: "processBlock pcj b ?n (wld p) = (None, w')"
    using assms(2) by (cases "processBlock pcj b ?n (wld p)") simp
  obtain m2 w2 where s: "saveLastBlock False (cursor_write ie) (cursor_rename ie)
                           (iteration_clock ie) (?m1, w') = (m2, w2)"
    by (cases "saveLastBlock False (cursor_write ie) (cursor_rename ie)
                 (iteration_clock ie) (?m1, w')")
  have m2: "lastProcessedBlock m2 = ?n"
    using saveLastBlock_keeps_cursor(1) [of False "cursor_write ie" "cursor_rename ie"
        "iteration_clock ie" ?m1 w'] s
    by simp
  have w2: "apart_from_cursor w2 w'"
    using saveLastBlock_frame [of False "cursor_write ie" "cursor_rename ie"
        "iteration_clock ie" ?m1 w'] s
    by simp
  show "lastProcessedBlock (mon (stream_iteration pcj ie p)) = ?n"
    using assms(1) pb s m2 by (simp add: stream_iteration_def Let_def)
  show "apart_from_cursor (wld (stream_iteration pcj ie p)) (snd (processBlock pcj b ?n (wld p)))"
    using assms(1) pb s w2 by (simp add: stream_iteration_def Let_def apart_from_cursor_refl)
  show "events (stream_iteration pcj ie p) = events p @ [GetBlock ?n]"
    using assms(1) pb s by (simp add: stream_iteration_def Let_def)
qed

lemma stream_iteration_asks:
  "take (Suc (length (events p))) (events (stream_iteration pcj ie p))
     = events p @ [GetBlock (js_add (lastProcessedBlock (mon p)) (Fin (dbl 1)))]"
  by (auto simp: stream_iteration_def Let_def
           split: fetched.splits prod.splits option.splits)

lemma stream_iteration_running:
  "isRunning (mon (stream_iteration pcj ie p)) = isRunning (mon p)"
  by (auto simp: stream_iteration_def Let_def saveLastBlock_keeps_cursor
           split: fetched.splits prod.splits option.splits
           dest!: arg_cong [where f = fst])

lemma stream_iteration_advance:
  assumes "lastProcessedBlock (mon (stream_iteration pcj ie p)) \<noteq> lastProcessedBlock (mon p)"
  shows "\<exists>b. getBlock ie (js_add (lastProcessedBlock (mon p)) (Fin (dbl 1))) = Fetched b
            \<and> fst (processBlock pcj b (js_add (lastProcessedBlock (mon p)) (Fin (dbl 1)))
                     (wld p)) = None"
proof (cases "getBlock ie (js_add (lastProcessedBlock (mon p)) (Fin (dbl 1)))")
  case (FetchFailed err)
  with assms show ?thesis
    by (simp add: stream_iteration_def Let_def)
next
  case NoBlockYet
  with assms show ?thesis
    by (simp add: stream_iteration_def Let_def)
next
  case (Fetched b)
  show ?thesis
  proof (cases "fst (processBlock pcj b (js_add (lastProcessedBlock (mon p)) (Fin (dbl 1)))
                       (wld p))")
    case (Some err)
    from stream_iteration_thrown [OF Fetched Some] assms show ?thesis
      by simp
  next
    case None
    with Fetched show ?thesis by simp
  qed
qed

text \<open>
  C8. Let \<open>n\<close> be \<open>lastProcessedBlock + 1\<close>, as the double arithmetic gives it. In an
  iteration of the block-stream loop in which the fetch of block \<open>n\<close> returns no block or
  throws, the monitor (and with it \<open>lastProcessedBlock\<close> and \<open>isRunning\<close>) and the world
  are unchanged, the iteration ends with a pause of 3 or 5 seconds, the loop goes on if
  it was running, and the next iteration asks for the same height. When a block is
  fetched and \<open>processBlock\<close> throws, the monitor is unchanged as well, the world is what
  \<open>processBlock\<close> had made of it, and the iteration pauses for 5 seconds. When a block is
  fetched and \<open>processBlock\<close> returns, every operation of the block has been applied in
  order, \<open>lastProcessedBlock\<close> is \<open>n\<close>, and the world is the world after the block, but
  for the cursor files that \<open>saveLastBlock\<close> may have written. \<open>lastProcessedBlock\<close>
  changes in no other case, and \<open>isRunning\<close> in none.
\<close>

theorem fetch_miss_retries_same_height:
  "(getBlock ie (js_add (lastProcessedBlock (mon p)) (Fin (dbl 1))) = NoBlockYet
    \<or> getBlock ie (js_add (lastProcessedBlock (mon p)) (Fin (dbl 1))) = FetchFailed err \<longrightarrow>
      mon (stream_iteration pcj ie p) = mon p
    \<and> wld (stream_iteration pcj ie p) = wld p
    \<and> events (stream_iteration pcj ie p)
        = events p @ [GetBlock (js_add (lastProcessedBlock (mon p)) (Fin (dbl 1))),
                      Sleep (if getBlock ie (js_add (lastProcessedBlock (mon p)) (Fin (dbl 1)))
                                = NoBlockYet
                             then 3000 else 5000)]
    \<and> (isRunning (mon p) \<longrightarrow>
         streamBlocks pcj (ie # ie' # rest) p
           = streamBlocks pcj rest (stream_iteration pcj ie' (stream_iteration pcj ie p)))
    \<and> take (length (events p) + 3)
         (events (stream_iteration pcj ie' (stream_iteration pcj ie p)))
        = events p @ [GetBlock (js_add (lastProcessedBlock (mon p)) (Fin (dbl 1))),
                      Sleep (if getBlock ie (js_add (lastProcessedBlock (mon p)) (Fin (dbl 1)))
                                = NoBlockYet
                             then 3000 else 5000),
                      GetBlock (js_add (lastProcessedBlock (mon p)) (Fin (dbl 1)))])
   \<and> (getBlock ie (js_add (lastProcessedBlock (mon p)) (Fin (dbl 1))) = Fetched b
      \<and> fst (processBlock pcj b (js_add (lastProcessedBlock (mon p)) (Fin (dbl 1))) (wld p))
          = Some err \<longrightarrow>
        mon (stream_iteration pcj ie p) = mon p
      \<and> wld (stream_iteration pcj ie p)
          = snd (processBlock pcj b (js_add (lastProcessedBlock (mon p)) (Fin (dbl 1))) (wld p))
      \<and> events (stream_iteration pcj ie p)
          = events p @ [GetBlock (js_add (lastProcessedBlock (mon p)) (Fin (dbl 1))),
                        Sleep 5000])
   \<and> (getBlock ie (js_add (lastProcessedBlock (mon p)) (Fin (dbl 1))) = Fetched b
      \<and> fst (processBlock pcj b (js_add (lastProcessedBlock (mon p)) (Fin (dbl 1))) (wld p))
          = None \<longrightarrow>
        lastProcessedBlock (mon (stream_iteration pcj ie p))
          = js_add (lastProcessedBlock (mon p)) (Fin (dbl 1))
      \<and> snd (processBlock pcj b (js_add (lastProcessedBlock (mon p)) (Fin (dbl 1))) (wld p))
          = fold (apply_operation pcj (js_add (lastProcessedBlock (mon p)) (Fin (dbl 1))))
              (block_operations b) (wld p)
      \<and> apart_from_cursor (wld (stream_iteration pcj ie p))
          (fold (apply_operation pcj (js_add (lastProcessedBlock (mon p)) (Fin (dbl 1))))
             (block_operations b) (wld p))
      \<and> events (stream_iteration pcj ie p)
          = events p @ [GetBlock (js_add (lastProcessedBlock (mon p)) (Fin (dbl 1)))])
   \<and> (lastProcessedBlock (mon (stream_iteration pcj ie p)) \<noteq> lastProcessedBlock (mon p) \<longrightarrow>
        (\<exists>b'. getBlock ie (js_add (lastProcessedBlock (mon p)) (Fin (dbl 1))) = Fetched b'
             \<and> fst (processBlock pcj b' (js_add (lastProcessedBlock (mon p)) (Fin (dbl 1)))
                      (wld p)) = None
             \<and> lastProcessedBlock (mon (stream_iteration pcj ie p))
                 = js_add (lastProcessedBlock (mon p)) (Fin (dbl 1))
             \<and> apart_from_cursor (wld (stream_iteration pcj ie p))
                 (fold (apply_operation pcj (js_add (lastProcessedBlock (mon p)) (Fin (dbl 1))))
                    (block_operations b') (wld p))))
   \<and> isRunning (mon (stream_iteration pcj ie p)) = isRunning (mon p)"
proof -
  let ?n = "js_add (lastProcessedBlock (mon p)) (Fin (dbl 1))"
  let ?p' = "stream_iteration pcj ie p"
  let ?pause = "Sleep (if getBlock ie ?n = NoBlockYet then 3000 else 5000)"
  have miss: "mon ?p' = mon p \<and> wld ?p' = wld p
      \<and> events ?p' = events p @ [GetBlock ?n, ?pause]
      \<and> (isRunning (mon p) \<longrightarrow>
           streamBlocks pcj (ie # ie' # rest) p
             = streamBlocks pcj rest (stream_iteration pcj ie' ?p'))
      \<and> take (length (events p) + 3) (events (stream_iteration pcj ie' ?p'))
          = events p @ [GetBlock ?n, ?pause, GetBlock ?n]"
    if g: "getBlock ie ?n = NoBlockYet \<or> getBlock ie ?n = FetchFailed err"
  proof -
    note eq = stream_iteration_miss [OF g, of pcj]
    have m: "mon ?p' = mon p" and w: "wld ?p' = wld p"
      by (simp_all add: eq)
    have ev: "events ?p' = events p @ [GetBlock ?n, ?pause]"
      by (simp add: eq)
    have loop: "isRunning (mon p) \<longrightarrow>
           streamBlocks pcj (ie # ie' # rest) p
             = streamBlocks pcj rest (stream_iteration pcj ie' ?p')"
      using m by simp
    have "take (Suc (length (events ?p'))) (events (stream_iteration pcj ie' ?p'))
            = events ?p' @ [GetBlock (js_add (lastProcessedBlock (mon ?p')) (Fin (dbl 1)))]"
      by (rule stream_iteration_asks)
    with ev m have again: "take (length (events p) + 3)
              (events (stream_iteration pcj ie' ?p'))
            = events p @ [GetBlock ?n, ?pause, GetBlock ?n]"
      by (simp add: numeral_3_eq_3 split: if_splits)
    from m w ev loop again show ?thesis by blast
  qed
  have thrown: "mon ?p' = mon p \<and> wld ?p' = snd (processBlock pcj b ?n (wld p))
      \<and> events ?p' = events p @ [GetBlock ?n, Sleep 5000]"
    if "getBlock ie ?n = Fetched b \<and> fst (processBlock pcj b ?n (wld p)) = Some err"
    using that by (simp add: stream_iteration_thrown [of ie p b pcj err])
  have processed: "lastProcessedBlock (mon ?p') = ?n
      \<and> snd (processBlock pcj c ?n (wld p))
          = fold (apply_operation pcj ?n) (block_operations c) (wld p)
      \<and> apart_from_cursor (wld ?p') (fold (apply_operation pcj ?n) (block_operations c) (wld p))
      \<and> events ?p' = events p @ [GetBlock ?n]"
    if h: "getBlock ie ?n = Fetched c \<and> fst (processBlock pcj c ?n (wld p)) = None" for c
  proof -
    from h have g: "getBlock ie ?n = Fetched c"
      and f: "fst (processBlock pcj c ?n (wld p)) = None"
      by simp_all
    note full = processBlock_full [OF f]
    from stream_iteration_processed [OF g f] full show ?thesis
      by simp
  qed
  have advance: "\<exists>b'. getBlock ie ?n = Fetched b'
             \<and> fst (processBlock pcj b' ?n (wld p)) = None
             \<and> lastProcessedBlock (mon ?p') = ?n
             \<and> apart_from_cursor (wld ?p')
                 (fold (apply_operation pcj ?n) (block_operations b') (wld p))"
    if "lastProcessedBlock (mon ?p') \<noteq> lastProcessedBlock (mon p)"
  proof -
    from stream_iteration_advance [OF that] obtain b' where
      h: "getBlock ie ?n = Fetched b' \<and> fst (processBlock pcj b' ?n (wld p)) = None"
      by blast
    from processed [OF h] h show ?thesis by blast
  qed
  have running: "isRunning (mon ?p') = isRunning (mon p)"
    by (rule stream_iteration_running)
  from miss thrown processed [of b] advance running show ?thesis
    by blast
qed

text \<open>
  The example runs: from height 100 the next height is 101; the block with the request
  of \<open>alice\<close> is processed in full and leaves the account created and its credentials
  pending; the block with a transaction without operations raises a \<open>TypeError\<close> after
  the request in the transaction before it has been served.
\<close>

lemma next_height_example: "js_add (Fin (dbl 100)) (Fin (dbl 1)) = Fin (dbl 101)"
  by (simp add: dval_small double_of_exact)

lemma serve_example:
  "serve (envelope (JStr ''newuser3'') (JStr ''both'')) (Fin (dbl 101)) ''R1'' (Some ''alice'')
     world0 = world1"
  by (simp add: serve_def text_of_def read_prop_def envelope_def request_defs example_defs
        world1_def Let_def)

lemma faucet_example:
  "faucet (snd request_op) n tx w
     = serve (envelope (JStr ''newuser3'') (JStr ''both'')) n tx (Some ''alice'') w"
  by (simp add: faucet_def request_op_def processCustomJson_def requester_of_def
        validate_defs envelope_def)

lemma processBlock_example:
  "processBlock faucet request_block (Fin (dbl 101)) world0 = (None, world1)"
  "processBlock faucet broken_block (Fin (dbl 101)) world0 = (Some TypeError, world1)"
  by (simp_all add: processBlock_def request_block_def broken_block_def faucet_example
        serve_example)
     (simp_all add: request_op_def)

text \<open>
  At a height that the save interval divides, the iteration also writes the cursor:
  from 119 an empty block takes the pump to 120, and \<open>last_block.json\<close> holds 120.
\<close>

lemma stream_iteration_saves_example:
  "stream_iteration faucet empty_block
     (pump0\<lparr>mon := monitor0\<lparr>lastProcessedBlock := Fin (dbl 119)\<rparr>\<rparr>)
     = \<lparr>mon = monitor0\<lparr>lastProcessedBlock := Fin (dbl 120),
                        lastSavedBlock := Some (Fin (dbl 120))\<rparr>,
        wld = world0\<lparr>last_block_file :=
                        CursorDoc (Some (dbl 120)) ''2025-01-02T00:00:06.000Z'',
                      fs_calls := [WriteFileSync LastBlockTmp,
                                   RenameSync LastBlockTmp LastBlockFile]\<rparr>,
        events = [GetBlock (Fin (dbl 120))]\<rparr>"
  by (simp add: stream_iteration_def processBlock_def saveLastBlock_def empty_block_def
        pump0_def monitor0_def world0_def js_falsy_def js_same_def json_num_def Let_def
        dval_small double_of_exact)

theorem fetch_miss_retries_same_height_witness:
  "isRunning (mon pump0)
   \<and> js_add (lastProcessedBlock (mon pump0)) (Fin (dbl 1)) = Fin (dbl 101)
   \<and> getBlock no_block_yet (Fin (dbl 101)) = NoBlockYet
   \<and> stream_iteration faucet no_block_yet pump0
       = pump0\<lparr>events := [GetBlock (Fin (dbl 101)), Sleep 3000]\<rparr>
   \<and> take 3 (events (stream_iteration faucet no_block_yet
                       (stream_iteration faucet no_block_yet pump0)))
       = [GetBlock (Fin (dbl 101)), Sleep 3000, GetBlock (Fin (dbl 101))]
   \<and> getBlock (node_with broken_block) (Fin (dbl 101)) = Fetched broken_block
   \<and> processBlock faucet broken_block (Fin (dbl 101)) (wld pump0) = (Some TypeError, world1)
   \<and> mon (stream_iteration faucet (node_with broken_block) pump0) = monitor0
   \<and> wld (stream_iteration faucet (node_with broken_block) pump0) = world1
   \<and> events (stream_iteration faucet (node_with broken_block) pump0)
       = [GetBlock (Fin (dbl 101)), Sleep 5000]
   \<and> getBlock (node_with request_block) (Fin (dbl 101)) = Fetched request_block
   \<and> processBlock faucet request_block (Fin (dbl 101)) (wld pump0) = (None, world1)
   \<and> lastProcessedBlock (mon (stream_iteration faucet (node_with request_block) pump0))
       = Fin (dbl 101)
   \<and> lastProcessedBlock (mon (stream_iteration faucet (node_with request_block) pump0))
       \<noteq> lastProcessedBlock (mon pump0)
   \<and> apart_from_cursor (wld (stream_iteration faucet (node_with request_block) pump0)) world1
   \<and> wld (stream_iteration faucet (node_with request_block) pump0) = world1
   \<and> pending_records world1 = [new_record]
   \<and> events (stream_iteration faucet (node_with request_block) pump0)
       = [GetBlock (Fin (dbl 101))]"
proof -
  have r: "isRunning (mon pump0)" and m0: "mon pump0 = monitor0" and w0: "wld pump0 = world0"
    and ev0: "events pump0 = []"
    by (simp_all add: pump0_def monitor0_def)
  have n: "js_add (lastProcessedBlock (mon pump0)) (Fin (dbl 1)) = Fin (dbl 101)"
    by (simp add: pump0_def monitor0_def dval_small double_of_exact)
  have g1: "getBlock no_block_yet (Fin (dbl 101)) = NoBlockYet"
    by (simp add: no_block_yet_def)
  have g2: "getBlock (node_with broken_block) (Fin (dbl 101)) = Fetched broken_block"
    and g3: "getBlock (node_with request_block) (Fin (dbl 101)) = Fetched request_block"
    by (simp_all add: node_with_def)
  have b2: "processBlock faucet broken_block (Fin (dbl 101)) (wld pump0) = (Some TypeError, world1)"
    and b3: "processBlock faucet request_block (Fin (dbl 101)) (wld pump0) = (None, world1)"
    by (simp_all add: w0 processBlock_example)
  note t1 = fetch_miss_retries_same_height [where p = pump0 and ie = no_block_yet
      and ie' = no_block_yet and pcj = faucet and err = TypeError and rest = "[]",
      unfolded n, THEN conjunct1]
  note t2 = fetch_miss_retries_same_height [where p = pump0 and ie = "node_with broken_block"
      and pcj = faucet and err = TypeError and b = broken_block,
      unfolded n, THEN conjunct2, THEN conjunct1]
  note t3 = fetch_miss_retries_same_height [where p = pump0 and ie = "node_with request_block"
      and pcj = faucet and b = request_block,
      unfolded n, THEN conjunct2, THEN conjunct2, THEN conjunct1]
  from t1 g1 have s1: "mon (stream_iteration faucet no_block_yet pump0) = mon pump0"
    "wld (stream_iteration faucet no_block_yet pump0) = wld pump0"
    "events (stream_iteration faucet no_block_yet pump0)
       = [GetBlock (Fin (dbl 101)), Sleep 3000]"
    "take 3 (events (stream_iteration faucet no_block_yet
                       (stream_iteration faucet no_block_yet pump0)))
       = [GetBlock (Fin (dbl 101)), Sleep 3000, GetBlock (Fin (dbl 101))]"
    by (simp_all add: ev0)
  have e1: "stream_iteration faucet no_block_yet pump0
       = pump0\<lparr>events := [GetBlock (Fin (dbl 101)), Sleep 3000]\<rparr>"
    using s1(1-3) by (cases "stream_iteration faucet no_block_yet pump0") (simp add: pump0_def)
  from t2 g2 b2 have s2: "mon (stream_iteration faucet (node_with broken_block) pump0) = monitor0"
    "wld (stream_iteration faucet (node_with broken_block) pump0) = world1"
    "events (stream_iteration faucet (node_with broken_block) pump0)
       = [GetBlock (Fin (dbl 101)), Sleep 5000]"
    by (simp_all add: ev0 m0)
  have p3: "getBlock (node_with request_block) (Fin (dbl 101)) = Fetched request_block
      \<and> fst (processBlock faucet request_block (Fin (dbl 101)) (wld pump0)) = None"
    using g3 b3 by simp
  note c3 = t3 [THEN mp, OF p3, unfolded b3 snd_conv]
  from c3 have s3:
    "lastProcessedBlock (mon (stream_iteration faucet (node_with request_block) pump0))
       = Fin (dbl 101)"
    "apart_from_cursor (wld (stream_iteration faucet (node_with request_block) pump0)) world1"
    "events (stream_iteration faucet (node_with request_block) pump0)
       = [GetBlock (Fin (dbl 101))]"
    by (metis, metis, simp add: ev0)
  have ne: "lastProcessedBlock (mon (stream_iteration faucet (node_with request_block) pump0))
       \<noteq> lastProcessedBlock (mon pump0)"
    unfolding s3(1) by (simp add: pump0_def monitor0_def dbl_eq_small)
  have w3: "wld (stream_iteration faucet (node_with request_block) pump0) = world1"
    using g3 b3 n
    by (simp add: stream_iteration_def Let_def pump0_def monitor0_def dval_small)
  have pr: "pending_records world1 = [new_record]"
    by (simp add: world1_def pending_records_def)
  from r n g1 e1 s1(4) g2 b2 s2 g3 b3 s3 ne w3 pr show ?thesis
    by simp
qed


end
